theory Spec2Isabelle
  imports
    Complex_Main
    "HOL-Library.Multiset"
    "HOL-Library.Char_ord"
    "HOL-Library.List_Lexorder"
begin

section \<open>Data model (types.ts)\<close>

text \<open>
  The string unions of the source are datatypes. Constructors are capitalised or prefixed
  where two unions share a member name. A JavaScript string is modelled as a \<open>string\<close>
  whose characters are the code units below 256; an optional or nullable field is an
  \<open>option\<close>.
\<close>

datatype SourceType = Mission_control | Apple_reminders | Apple_notes | Chatgpt | Claude

datatype ProjectStatus = P_planned | P_active | P_blocked | P_done | P_archived

datatype TaskStatus = Todo | In_progress | Blocked | Parking_lot | Done

datatype Priority = Low | Medium | High | Urgent

datatype Recurrence = Rec_none | Daily | Weekly

datatype ContentParentType = Parent_project | Parent_task

datatype ActivityEntity = Act_project | Act_task | Act_content | Act_import

record Project =
  project_id :: string
  project_title :: string
  description :: "string option"
  project_status :: ProjectStatus
  project_dueDate :: "string option"
  completionPercent :: int
  project_source :: SourceType
  project_createdAt :: string
  project_updatedAt :: string

record Task =
  task_id :: string
  title :: string
  details :: "string option"
  status :: TaskStatus
  priority :: Priority
  dueDate :: "string option"
  scheduledAt :: "string option"
  completedAt :: "string option"
  projectId :: string
  source :: SourceType
  order_index :: int
  recurrence :: Recurrence
  createdAt :: string
  updatedAt :: string

text \<open>
  Of a content entry only the columns that the project and task operations read or write
  are kept; of an activity row the payload is dropped.
\<close>

record ContentEntry =
  entry_id :: string
  parentType :: ContentParentType
  parentId :: string

record ActivityLog =
  activity_id :: string
  entityType :: ActivityEntity
  entityId :: string
  action :: string
  activity_createdAt :: string

section \<open>The store (store.ts)\<close>

text \<open>
  The SQLite tables are lists of rows in insertion order. The two sources of
  nondeterminism, \<open>new Date().toISOString()\<close> and \<open>crypto.randomUUID()\<close>, are
  functions of the number of calls made so far, which the store counts. The \<open>Date\<close>
  object of the JavaScript runtime is a parameter as well: \<open>date_parse\<close> is
  \<open>new Date(s).getTime()\<close> with \<open>None\<close> for NaN, \<open>date_plus_days t n\<close> is the time
  value after \<open>d.setDate(d.getDate() + n)\<close> in the local time zone (\<open>None\<close> when it leaves
  the range of time values), and \<open>date_toISOString\<close> prints a valid time value. Every
  theorem holds for all such functions.
\<close>

record Env =
  clock :: "nat \<Rightarrow> string"
  uuids :: "nat \<Rightarrow> string"
  date_parse :: "string \<Rightarrow> int option"
  date_plus_days :: "int \<Rightarrow> int \<Rightarrow> int option"
  date_toISOString :: "int \<Rightarrow> string"

record Store =
  projects :: "Project list"
  tasks :: "Task list"
  content_entries :: "ContentEntry list"
  activity :: "ActivityLog list"
  clock_reads :: nat
  uuid_draws :: nat

text \<open>
  The errors the operations raise: the primary key of an INSERT is taken, \<open>toISOString\<close> is
  called on an invalid date, a statement has more \<open>?\<close> than SQLite allows, and the driver
  is asked for an INTEGER that is no safe integer of JavaScript.
\<close>

datatype error =
    SqliteConstraintPrimaryKey | RangeErrorInvalidTime | SqliteTooManyVariables | ErrOutOfRange

definition INBOX_PROJECT_ID :: string where
  "INBOX_PROJECT_ID = ''proj-inbox''"

definition TASK_STATUSES :: "TaskStatus list" where
  "TASK_STATUSES = [Todo, In_progress, Blocked, Parking_lot, Done]"

definition status_text :: "TaskStatus \<Rightarrow> string" where
  "status_text s = (case s of Todo \<Rightarrow> ''todo'' | In_progress \<Rightarrow> ''in_progress''
     | Blocked \<Rightarrow> ''blocked'' | Parking_lot \<Rightarrow> ''parking_lot'' | Done \<Rightarrow> ''done'')"

definition now :: "Env \<Rightarrow> Store \<Rightarrow> string \<times> Store" where
  "now env db = (clock env (clock_reads db), db\<lparr>clock_reads := Suc (clock_reads db)\<rparr>)"

definition createId :: "Env \<Rightarrow> string \<Rightarrow> Store \<Rightarrow> string \<times> Store" where
  "createId env prefix db =
     (prefix @ ''-'' @ uuids env (uuid_draws db), db\<lparr>uuid_draws := Suc (uuid_draws db)\<rparr>)"

subsection \<open>SQL helpers\<close>

text \<open>
  \<open>ORDER BY\<close> is a stable insertion sort under the comparison of the clause; \<open>UPDATE
  ... WHERE\<close> maps the table; \<open>rows.forEach((row, index) => ...)\<close> is a fold that
  carries the index.
\<close>

fun insort_by :: "('a \<Rightarrow> 'a \<Rightarrow> bool) \<Rightarrow> 'a \<Rightarrow> 'a list \<Rightarrow> 'a list" where
  "insort_by le x [] = [x]"
| "insort_by le x (y # ys) = (if le x y then x # y # ys else y # insort_by le x ys)"

definition order_by :: "('a \<Rightarrow> 'a \<Rightarrow> bool) \<Rightarrow> 'a list \<Rightarrow> 'a list" where
  "order_by le xs = foldr (insort_by le) xs []"

definition update_where :: "('a \<Rightarrow> bool) \<Rightarrow> ('a \<Rightarrow> 'a) \<Rightarrow> 'a list \<Rightarrow> 'a list" where
  "update_where P f rows = map (\<lambda>r. if P r then f r else r) rows"

fun forEach_indexed :: "('a \<Rightarrow> nat \<Rightarrow> 's \<Rightarrow> 's) \<Rightarrow> 'a list \<Rightarrow> nat \<Rightarrow> 's \<Rightarrow> 's" where
  "forEach_indexed f [] i s = s"
| "forEach_indexed f (x # xs) i s = forEach_indexed f xs (Suc i) (f x i s)"

text \<open>\<open>ORDER BY order_index ASC, updated_at DESC, id ASC\<close>\<close>

definition lane_le :: "Task \<Rightarrow> Task \<Rightarrow> bool" where
  "lane_le a b \<longleftrightarrow>
     order_index a < order_index b \<or>
     (order_index a = order_index b \<and>
        (updatedAt b < updatedAt a \<or> (updatedAt a = updatedAt b \<and> task_id a \<le> task_id b)))"

text \<open>\<open>ORDER BY order_index ASC, created_at ASC, updated_at ASC, id ASC\<close>\<close>

definition normalize_le :: "Task \<Rightarrow> Task \<Rightarrow> bool" where
  "normalize_le a b \<longleftrightarrow>
     order_index a < order_index b \<or>
     (order_index a = order_index b \<and>
        (createdAt a < createdAt b \<or>
         (createdAt a = createdAt b \<and>
            (updatedAt a < updatedAt b \<or> (updatedAt a = updatedAt b \<and> task_id a \<le> task_id b)))))"

text \<open>\<open>ORDER BY status ASC, order_index ASC, updated_at DESC\<close>\<close>

definition list_le :: "Task \<Rightarrow> Task \<Rightarrow> bool" where
  "list_le a b \<longleftrightarrow>
     status_text (status a) < status_text (status b) \<or>
     (status a = status b \<and>
        (order_index a < order_index b \<or>
         (order_index a = order_index b \<and> updatedAt b \<le> updatedAt a)))"

definition set_order_index :: "string \<Rightarrow> nat \<Rightarrow> Store \<Rightarrow> Store" where
  "set_order_index tid index db =
     db\<lparr>tasks := update_where (\<lambda>t. task_id t = tid) (\<lambda>t. t\<lparr>order_index := int index\<rparr>) (tasks db)\<rparr>"

definition insertActivity :: "Env \<Rightarrow> ActivityEntity \<Rightarrow> string \<Rightarrow> string \<Rightarrow> Store \<Rightarrow> Store" where
  "insertActivity env ety eid act db =
     (let (aid, db1) = createId env ''act'' db;
          (ts, db2) = now env db1
      in db2\<lparr>activity := activity db2 @
            [\<lparr>activity_id = aid, entityType = ety, entityId = eid, action = act,
              activity_createdAt = ts\<rparr>]\<rparr>)"

definition normalizeTaskOrder :: "Store \<Rightarrow> Store" where
  "normalizeTaskOrder db =
     fold (\<lambda>st d.
        forEach_indexed (\<lambda>row index. set_order_index (task_id row) index)
          (order_by normalize_le (filter (\<lambda>t. status t = st) (tasks d))) 0 d)
       TASK_STATUSES db"

definition projectExists :: "Store \<Rightarrow> string \<Rightarrow> bool" where
  "projectExists db pid \<longleftrightarrow> (\<exists>p \<in> set (projects db). project_id p = pid)"

definition ensureInboxProject :: "Env \<Rightarrow> Store \<Rightarrow> string \<times> Store" where
  "ensureInboxProject env db =
     (if projectExists db INBOX_PROJECT_ID then (INBOX_PROJECT_ID, db)
      else
        let (ts, db1) = now env db
        in (INBOX_PROJECT_ID,
            db1\<lparr>projects := projects db1 @
              [\<lparr>project_id = INBOX_PROJECT_ID, project_title = ''Inbox'',
                description = Some ''System default project for uncategorized tasks.'',
                project_status = P_active, project_dueDate = None, completionPercent = 0,
                project_source = Mission_control, project_createdAt = ts,
                project_updatedAt = ts\<rparr>]\<rparr>))"

text \<open>
  \<open>order_index\<close> is a column of INTEGER affinity, and the driver binds every number as a
  binary64 value. The program writes whole numbers only (an index, the next order of a lane, or
  \<open>Math.max(0, Math.trunc(x))\<close>), so an order value is modelled by the whole number it denotes:
  strictly between \<open>-2^63\<close> and \<open>2^63\<close> it is stored as an INTEGER, outside as a REAL.
\<close>

definition MAX_SAFE_INTEGER :: int where
  "MAX_SAFE_INTEGER = 2 ^ 53 - 1"

definition stored_as_integer :: "int \<Rightarrow> bool" where
  "stored_as_integer v \<longleftrightarrow> - (2 ^ 63) < v \<and> v < 2 ^ 63"

text \<open>
  \<open>SELECT COALESCE(MAX(order_index), -1) + 1 FROM tasks WHERE status = ?\<close>. On an INTEGER
  the sum is exact, and a sum of \<open>2^63\<close> is returned as a REAL; on a REAL it is the binary64
  sum, which leaves a number of that size as it is. The driver returns a REAL as it is and
  refuses an INTEGER beyond \<open>2^53 - 1\<close> in absolute value.
\<close>

definition getNextTaskOrder :: "Store \<Rightarrow> TaskStatus \<Rightarrow> error + int" where
  "getNextTaskOrder db st =
     (case map order_index (filter (\<lambda>t. status t = st) (tasks db)) of
        [] \<Rightarrow> Inr 0
      | x # xs \<Rightarrow>
          let m = fold max xs x
          in if stored_as_integer m then
               (if stored_as_integer (m + 1) then
                  (if \<bar>m + 1\<bar> \<le> MAX_SAFE_INTEGER then Inr (m + 1) else Inl ErrOutOfRange)
                else Inr (m + 1))
             else Inr m)"

definition listTasks :: "Store \<Rightarrow> Task list" where
  "listTasks db = order_by list_le (tasks db)"

text \<open>\<open>ORDER BY updated_at DESC\<close>\<close>

definition listProjects :: "Store \<Rightarrow> Project list" where
  "listProjects db = order_by (\<lambda>a b. project_updatedAt b \<le> project_updatedAt a) (projects db)"

subsection \<open>reorderTasksInLane and deleteTask\<close>

record TaskReorderRequest =
  movedTaskId :: string
  toStatus :: TaskStatus
  orderedTaskIds :: "string list"

text \<open>\<open>Array.from(new Set(xs))\<close> keeps the first occurrence of every element.\<close>

definition array_from_set :: "'a list \<Rightarrow> 'a list" where
  "array_from_set xs = rev (remdups (rev xs))"

text \<open>
  A statement may hold 32766 parameters. The body of the transaction raises when its second
  statement, which binds the status and every id, has more; \<open>transaction\<close> then rolls back
  and raises again, so nothing of the body is written.
\<close>

definition SQLITE_MAX_VARIABLE_NUMBER :: nat where
  "SQLITE_MAX_VARIABLE_NUMBER = 32766"

definition reorder_tx :: "TaskReorderRequest \<Rightarrow> Task \<Rightarrow> string list \<Rightarrow> string \<Rightarrow> Store \<Rightarrow> error + Store" where
  "reorder_tx input moved orderedIds ts db =
     (let db1 = db\<lparr>tasks := update_where (\<lambda>t. task_id t = movedTaskId input)
                    (\<lambda>t. t\<lparr>status := toStatus input, updatedAt := ts\<rparr>) (tasks db)\<rparr>
      in if orderedIds \<noteq> [] \<and> SQLITE_MAX_VARIABLE_NUMBER < Suc (length orderedIds)
         then Inl SqliteTooManyVariables
         else
           let remaining =
                 (if orderedIds \<noteq> [] then
                    order_by lane_le
                      (filter (\<lambda>t. status t = toStatus input \<and> task_id t \<notin> set orderedIds) (tasks db1))
                  else
                    order_by lane_le
                      (filter (\<lambda>t. status t = toStatus input \<and> task_id t \<noteq> movedTaskId input) (tasks db1)));
               finalIds = orderedIds @ map task_id remaining;
               db2 = forEach_indexed
                       (\<lambda>taskId index d. d\<lparr>tasks := update_where (\<lambda>t. task_id t = taskId)
                            (\<lambda>t. t\<lparr>status := toStatus input, order_index := int index, updatedAt := ts\<rparr>)
                            (tasks d)\<rparr>)
                       finalIds 0 db1
           in Inr (if status moved \<noteq> toStatus input then
                     forEach_indexed (\<lambda>row index. set_order_index (task_id row) index)
                       (order_by lane_le (filter (\<lambda>t. status t = status moved) (tasks db2))) 0 db2
                   else db2))"

text \<open>
  The validation query binds one parameter for every id of the list and raises when there are
  too many, before anything is written.
\<close>

definition reorderTasksInLane :: "Env \<Rightarrow> TaskReorderRequest \<Rightarrow> Store \<Rightarrow> (error + Task list option) \<times> Store" where
  "reorderTasksInLane env input db =
     (case find (\<lambda>t. task_id t = movedTaskId input) (tasks db) of
        None \<Rightarrow> (Inr None, db)
      | Some moved \<Rightarrow>
          let orderedIds = array_from_set (filter (\<lambda>s. s \<noteq> []) (orderedTaskIds input)) in
          if movedTaskId input \<notin> set orderedIds then (Inr None, db)
          else if orderedIds \<noteq> [] \<and> SQLITE_MAX_VARIABLE_NUMBER < length orderedIds
          then (Inl SqliteTooManyVariables, db)
          else
            let rows = filter (\<lambda>t. task_id t \<in> set orderedIds) (tasks db) in
            if orderedIds \<noteq> [] \<and>
               (length rows \<noteq> length orderedIds \<or>
                (\<exists>row \<in> set rows. task_id row \<noteq> movedTaskId input \<and> status row \<noteq> toStatus input))
            then (Inr None, db)
            else
              let (ts, db1) = now env db
              in (case reorder_tx input moved orderedIds ts db1 of
                    Inl e \<Rightarrow> (Inl e, db1)
                  | Inr db2 \<Rightarrow>
                      let db3 = insertActivity env Act_task (movedTaskId input) ''reordered'' db2
                      in (Inr (Some (listTasks db3)), db3)))"

definition deleteTask :: "Env \<Rightarrow> string \<Rightarrow> Store \<Rightarrow> bool \<times> Store" where
  "deleteTask env tid db =
     (case find (\<lambda>t. task_id t = tid) (tasks db) of
        None \<Rightarrow> (False, db)
      | Some task \<Rightarrow>
          let db1 = db\<lparr>content_entries :=
                      filter (\<lambda>e. \<not> (parentType e = Parent_task \<and> parentId e = tid)) (content_entries db)\<rparr>;
              db2 = db1\<lparr>tasks := filter (\<lambda>t. task_id t \<noteq> tid) (tasks db1)\<rparr>;
              db3 = forEach_indexed (\<lambda>row index. set_order_index (task_id row) index)
                      (order_by lane_le (filter (\<lambda>t. status t = status task) (tasks db2))) 0 db2
          in (True, insertActivity env Act_task tid ''deleted'' db3))"

subsection \<open>Strings\<close>

text \<open>
  White space of \<open>String.prototype.trim\<close> and of the regular expression class \<open>\s\<close>,
  among the code units below 256: tab, line feed, vertical tab, form feed, carriage return,
  space and the no-break space.
\<close>

definition is_space :: "char \<Rightarrow> bool" where
  "is_space c \<longleftrightarrow> of_char c \<in> {9, 10, 11, 12, 13, 32, 160 :: nat}"

definition trim :: "string \<Rightarrow> string" where
  "trim s = rev (dropWhile is_space (rev (dropWhile is_space s)))"

text \<open>\<open>value?.trim() || null\<close>\<close>

definition trimmed_or_null :: "string option \<Rightarrow> string option" where
  "trimmed_or_null v =
     (case v of None \<Rightarrow> None
      | Some s \<Rightarrow> (if trim s = [] then None else Some (trim s)))"

subsection \<open>Projects\<close>

record CreateProjectInput =
  cp_title :: string
  cp_description :: "string option"
  cp_status :: "ProjectStatus option"
  cp_dueDate :: "string option"
  cp_source :: "SourceType option"

text \<open>
  A field of a patch object is omitted, null or a value. The source tests
  \<open>typeof patch.x === "string" || patch.x === null ? patch.x : current.x\<close>.
\<close>

datatype 'a nullable = Omitted | Null | Value 'a

definition patched :: "'a nullable \<Rightarrow> 'a option \<Rightarrow> 'a option" where
  "patched p current = (case p of Omitted \<Rightarrow> current | Null \<Rightarrow> None | Value v \<Rightarrow> Some v)"

record ProjectPatch =
  pp_title :: "string option"
  pp_description :: "string nullable"
  pp_status :: "ProjectStatus option"
  pp_dueDate :: "string nullable"
  pp_completionPercent :: "int option"

definition createProject :: "Env \<Rightarrow> CreateProjectInput \<Rightarrow> Store \<Rightarrow> (error + Project) \<times> Store" where
  "createProject env input db =
     (let (ts, db1) = now env db;
          (pid, db2) = createId env ''proj'' db1;
          item = \<lparr>project_id = pid,
                  project_title = trim (cp_title input),
                  description = trimmed_or_null (cp_description input),
                  project_status = (case cp_status input of None \<Rightarrow> P_planned | Some st \<Rightarrow> st),
                  project_dueDate = cp_dueDate input,
                  completionPercent = (if cp_status input = Some P_done then 100 else 0),
                  project_source = (case cp_source input of None \<Rightarrow> Mission_control | Some src \<Rightarrow> src),
                  project_createdAt = ts,
                  project_updatedAt = ts\<rparr>
      in if projectExists db2 pid then (Inl SqliteConstraintPrimaryKey, db2)
         else
           let db3 = db2\<lparr>projects := projects db2 @ [item]\<rparr>
           in (Inr item, insertActivity env Act_project pid ''created'' db3))"

definition updateProject :: "Env \<Rightarrow> string \<Rightarrow> ProjectPatch \<Rightarrow> Store \<Rightarrow> Project option \<times> Store" where
  "updateProject env pid patch db =
     (case find (\<lambda>p. project_id p = pid) (projects db) of
        None \<Rightarrow> (None, db)
      | Some current \<Rightarrow>
          let (ts, db1) = now env db;
              item = current\<lparr>
                project_title := (case pp_title patch of Some t \<Rightarrow> trim t | None \<Rightarrow> project_title current),
                description := patched (pp_description patch) (description current),
                project_status := (case pp_status patch of Some st \<Rightarrow> st | None \<Rightarrow> project_status current),
                project_dueDate := patched (pp_dueDate patch) (project_dueDate current),
                completionPercent :=
                  (case pp_completionPercent patch of Some n \<Rightarrow> max 0 (min 100 n)
                   | None \<Rightarrow> completionPercent current),
                project_updatedAt := ts\<rparr>;
              db2 = db1\<lparr>projects := update_where (\<lambda>p. project_id p = pid)
                       (\<lambda>p. p\<lparr>project_title := project_title item, description := description item,
                               project_status := project_status item,
                               project_dueDate := project_dueDate item,
                               completionPercent := completionPercent item,
                               project_updatedAt := project_updatedAt item\<rparr>) (projects db1)\<rparr>
          in (Some item, insertActivity env Act_project pid ''updated'' db2))"

definition deleteProject :: "Env \<Rightarrow> string \<Rightarrow> Store \<Rightarrow> bool \<times> Store" where
  "deleteProject env pid db =
     (if pid = INBOX_PROJECT_ID then (False, db)
      else if \<not> projectExists db pid then (False, db)
      else
        let (inbox, db1) = ensureInboxProject env db;
            db2 = db1\<lparr>tasks := update_where (\<lambda>t. projectId t = pid)
                     (\<lambda>t. t\<lparr>projectId := INBOX_PROJECT_ID\<rparr>) (tasks db1)\<rparr>;
            db3 = db2\<lparr>content_entries := update_where
                     (\<lambda>e. parentType e = Parent_project \<and> parentId e = pid)
                     (\<lambda>e. e\<lparr>parentId := INBOX_PROJECT_ID\<rparr>) (content_entries db2)\<rparr>;
            db4 = db3\<lparr>projects := filter (\<lambda>p. project_id p \<noteq> pid) (projects db3)\<rparr>
        in (True, insertActivity env Act_project pid ''deleted'' db4))"

subsection \<open>createTask and updateTask\<close>

record CreateTaskInput =
  ct_title :: string
  ct_details :: "string option"
  ct_status :: "TaskStatus option"
  ct_priority :: "Priority option"
  ct_dueDate :: "string option"
  ct_scheduledAt :: "string option"
  ct_projectId :: "string option"
  ct_source :: "SourceType option"
  ct_recurrence :: "Recurrence option"

record TaskPatch =
  tp_title :: "string option"
  tp_details :: "string nullable"
  tp_status :: "TaskStatus option"
  tp_priority :: "Priority option"
  tp_dueDate :: "string nullable"
  tp_scheduledAt :: "string nullable"
  tp_projectId :: "string nullable"
  tp_order :: "rat option"
  tp_recurrence :: "Recurrence option"

definition addRecurrenceDate :: "Env \<Rightarrow> string option \<Rightarrow> Recurrence \<Rightarrow> error + string option" where
  "addRecurrenceDate env date rec =
     (case date of
        None \<Rightarrow> Inr date
      | Some s \<Rightarrow>
          if s = [] \<or> rec = Rec_none then Inr date
          else
            (case date_parse env s of
               None \<Rightarrow> Inr date
             | Some t \<Rightarrow>
                 let d1 = (if rec = Daily then date_plus_days env t 1 else Some t);
                     d2 = (if rec = Weekly then Option.bind d1 (\<lambda>t1. date_plus_days env t1 7) else d1)
                 in (case d2 of
                       None \<Rightarrow> Inl RangeErrorInvalidTime
                     | Some t2 \<Rightarrow> Inr (Some (date_toISOString env t2)))))"

definition createTask :: "Env \<Rightarrow> CreateTaskInput \<Rightarrow> Store \<Rightarrow> (error + Task) \<times> Store" where
  "createTask env input db =
     (let (ts, db1) = now env db;
          st = (case ct_status input of None \<Rightarrow> Todo | Some s \<Rightarrow> s);
          rec = (case ct_recurrence input of None \<Rightarrow> Rec_none | Some r \<Rightarrow> r);
          pid0 = (case ct_projectId input of None \<Rightarrow> INBOX_PROJECT_ID | Some p \<Rightarrow> p);
          (pid, db2) = (if \<not> projectExists db1 pid0 then ensureInboxProject env db1 else (pid0, db1));
          (tid, db3) = createId env ''task'' db2
      in case getNextTaskOrder db3 st of
           Inl e \<Rightarrow> (Inl e, db3)
         | Inr nextOrder \<Rightarrow>
             let item = \<lparr>task_id = tid,
                   title = trim (ct_title input),
                   details = trimmed_or_null (ct_details input),
                   status = st,
                   priority = (case ct_priority input of None \<Rightarrow> Medium | Some p \<Rightarrow> p),
                   dueDate = ct_dueDate input,
                   scheduledAt = ct_scheduledAt input,
                   completedAt = (if st = Done then Some ts else None),
                   projectId = pid,
                   source = (case ct_source input of None \<Rightarrow> Mission_control | Some src \<Rightarrow> src),
                   order_index = nextOrder,
                   recurrence = rec,
                   createdAt = ts,
                   updatedAt = ts\<rparr>
             in if \<exists>t \<in> set (tasks db3). task_id t = tid then (Inl SqliteConstraintPrimaryKey, db3)
                else
                  let db4 = db3\<lparr>tasks := tasks db3 @ [item]\<rparr>
                  in (Inr item, insertActivity env Act_task tid ''created'' db4))"

text \<open>\<open>Math.trunc\<close> rounds towards zero.\<close>

definition math_trunc :: "rat \<Rightarrow> int" where
  "math_trunc x = (if 0 \<le> x then \<lfloor>x\<rfloor> else \<lceil>x\<rceil>)"

text \<open>
  \<open>updateTask\<close> in three parts: the \<open>UPDATE tasks SET ... WHERE id = ?\<close> statement, the
  block that creates the next occurrence of a recurring task, and the function itself.
\<close>

definition write_task :: "string \<Rightarrow> Task \<Rightarrow> Store \<Rightarrow> Store" where
  "write_task tid item db =
     db\<lparr>tasks := update_where (\<lambda>t. task_id t = tid)
           (\<lambda>t. t\<lparr>title := title item, details := details item, status := status item,
                   priority := priority item, dueDate := dueDate item,
                   scheduledAt := scheduledAt item, completedAt := completedAt item,
                   projectId := projectId item, order_index := order_index item,
                   recurrence := recurrence item, updatedAt := updatedAt item\<rparr>)
           (tasks db)\<rparr>"

definition spawn_next :: "Env \<Rightarrow> Task \<Rightarrow> Store \<Rightarrow> (error + Task) \<times> Store" where
  "spawn_next env item db =
     (case addRecurrenceDate env (dueDate item) (recurrence item) of
        Inl e \<Rightarrow> (Inl e, db)
      | Inr due \<Rightarrow>
          (case addRecurrenceDate env (scheduledAt item) (recurrence item) of
             Inl e \<Rightarrow> (Inl e, db)
           | Inr sched \<Rightarrow>
               createTask env
                 \<lparr>ct_title = title item, ct_details = details item,
                  ct_status = Some Todo, ct_priority = Some (priority item),
                  ct_dueDate = due, ct_scheduledAt = sched,
                  ct_projectId = Some (projectId item),
                  ct_source = Some (source item),
                  ct_recurrence = Some (recurrence item)\<rparr> db))"

definition updateTask :: "Env \<Rightarrow> string \<Rightarrow> TaskPatch \<Rightarrow> Store \<Rightarrow> (error + Task option) \<times> Store" where
  "updateTask env tid patch db =
     (case find (\<lambda>t. task_id t = tid) (tasks db) of
        None \<Rightarrow> (Inr None, db)
      | Some current \<Rightarrow>
          if tp_projectId patch = Null then (Inr None, db)
          else
            let nextStatus = (case tp_status patch of Some s \<Rightarrow> s | None \<Rightarrow> status current);
                nextRecurrence = (case tp_recurrence patch of Some r \<Rightarrow> r | None \<Rightarrow> recurrence current);
                nextOrderRead =
                  (case tp_order patch of
                     Some n \<Rightarrow> Inr (max 0 (math_trunc n))
                   | None \<Rightarrow>
                       if nextStatus \<noteq> status current then getNextTaskOrder db nextStatus
                       else Inr (order_index current))
            in case nextOrderRead of
                 Inl e \<Rightarrow> (Inl e, db)
               | Inr nextOrder \<Rightarrow>
            let (pid, db1) =
                  (case tp_projectId patch of
                     Value p \<Rightarrow> (if projectExists db p then (p, db) else ensureInboxProject env db)
                   | _ \<Rightarrow> (projectId current, db));
                (tsCompleted, db2) = (if nextStatus = Done then now env db1 else ([], db1));
                (tsUpdated, db3) = now env db2;
                item = current\<lparr>
                  title := (case tp_title patch of Some t \<Rightarrow> trim t | None \<Rightarrow> title current),
                  details := patched (tp_details patch) (details current),
                  status := nextStatus,
                  priority := (case tp_priority patch of Some p \<Rightarrow> p | None \<Rightarrow> priority current),
                  dueDate := patched (tp_dueDate patch) (dueDate current),
                  scheduledAt := patched (tp_scheduledAt patch) (scheduledAt current),
                  completedAt := (if nextStatus = Done then Some tsCompleted else None),
                  projectId := pid,
                  order_index := nextOrder,
                  recurrence := nextRecurrence,
                  updatedAt := tsUpdated\<rparr>;
                db4 = write_task tid item db3;
                db5 = (if status current \<noteq> status item then normalizeTaskOrder db4 else db4)
            in
              if status current \<noteq> Done \<and> status item = Done \<and> recurrence item \<noteq> Rec_none then
                (case spawn_next env item db5 of
                   (Inl e, db6) \<Rightarrow> (Inl e, db6)
                 | (Inr spawned, db6) \<Rightarrow>
                     (Inr (Some item), insertActivity env Act_task tid ''updated'' db6))
              else (Inr (Some item), insertActivity env Act_task tid ''updated'' db5))"

section \<open>Import preview (imports.ts)\<close>

datatype ImportType = Imp_apple_reminders | Imp_apple_notes | Imp_chatgpt_projects | Imp_claude_projects

datatype ImportEntityType = Entity_task | Entity_project

datatype ImportAction = Create | Update | Skip

datatype MatchKind = Exact | Fuzzy

record ImportDuplicateMatch =
  match_entityType :: ImportEntityType
  match_id :: string
  match_title :: string
  match_score :: rat
  match_kind :: MatchKind

record ImportPreviewRow =
  row_line :: nat
  row_values :: "string \<rightharpoonup> string"
  row_error :: "string option"
  duplicateMatch :: "ImportDuplicateMatch option"
  suggestedAction :: ImportAction

record ImportPreviewRequest =
  import_type :: ImportType
  import_text :: string

record ImportPreviewResponse =
  resp_headers :: "string list"
  resp_rows :: "ImportPreviewRow list"
  validRows :: int
  invalidRows :: int

subsection \<open>Numbers\<close>

text \<open>
  A JavaScript number is the rational value of the binary64 it denotes. \<open>to_double x\<close> is
  the binary64 nearest to \<open>x\<close> with ties to the even significand, for \<open>0 \<le> x < 2^53\<close>:
  \<open>scale52\<close> finds the binary exponent, which stops at the subnormal quantum \<open>2^-1074\<close>.
  The division of two integers below \<open>2^53\<close> is correctly rounded, so it is \<open>to_double\<close> of
  the exact quotient, and a decimal literal is \<open>to_double\<close> of its decimal value.
\<close>

fun scale52 :: "nat \<Rightarrow> rat \<Rightarrow> nat" where
  "scale52 0 x = 0"
| "scale52 (Suc n) x = (if 2 ^ 52 \<le> x then 0 else Suc (scale52 n (2 * x)))"

definition round_half_even :: "rat \<Rightarrow> int" where
  "round_half_even x =
     (let f = \<lfloor>x\<rfloor>; r = x - of_int f
      in if r < 1 / 2 then f else if 1 / 2 < r then f + 1 else if even f then f else f + 1)"

definition to_double :: "rat \<Rightarrow> rat" where
  "to_double x =
     (if x \<le> 0 then 0
      else let k = scale52 1074 x in of_int (round_half_even (x * 2 ^ k)) / 2 ^ k)"

text \<open>
  \<open>Number(x.toFixed(2))\<close>: \<open>toFixed\<close> takes the integer \<open>n\<close> for which \<open>n / 100 - x\<close> is
  closest to zero, the larger one of two, and \<open>Number\<close> reads the decimal back.
\<close>

definition toFixed2 :: "rat \<Rightarrow> rat" where
  "toFixed2 x = to_double (of_int \<lfloor>x * 100 + 1 / 2\<rfloor> / 100)"

subsection \<open>parseCsv\<close>

text \<open>\<open>String.prototype.split\<close> on a one-character separator; the result is never empty.\<close>

fun split_on :: "char \<Rightarrow> string \<Rightarrow> string list" where
  "split_on c [] = [[]]"
| "split_on c (x # xs) =
     (if x = c then [] # split_on c xs
      else (case split_on c xs of [] \<Rightarrow> [[x]] | w # ws \<Rightarrow> (x # w) # ws))"

text \<open>
  \<open>text.split(/\r?\n/)\<close>: the text is cut at every line feed, and a carriage return
  right before the line feed belongs to the separator.
\<close>

definition drop_cr :: "string \<Rightarrow> string" where
  "drop_cr l = (if l \<noteq> [] \<and> last l = CHR 0x0D then butlast l else l)"

definition split_lines :: "string \<Rightarrow> string list" where
  "split_lines text =
     (let parts = split_on (CHR 0x0A) text
      in map drop_cr (butlast parts) @ [last parts])"

record ParsedCsv =
  csv_headers :: "string list"
  csv_rows :: "string list list"

definition parseCsv :: "string \<Rightarrow> ParsedCsv" where
  "parseCsv text =
     (let lines = filter (\<lambda>l. l \<noteq> []) (map trim (split_lines text))
      in case lines of
           [] \<Rightarrow> \<lparr>csv_headers = [], csv_rows = []\<rparr>
         | first # rest \<Rightarrow>
             \<lparr>csv_headers = map trim (split_on (CHR '','') first),
              csv_rows = map (\<lambda>l. map trim (split_on (CHR '','') l)) rest\<rparr>)"

subsection \<open>normalize, bigrams, diceSimilarity\<close>

text \<open>\<open>String.prototype.toLowerCase\<close> on the code units below 256.\<close>

definition to_lower :: "char \<Rightarrow> char" where
  "to_lower c =
     (let n = of_char c :: nat
      in if (65 \<le> n \<and> n \<le> 90) \<or> (192 \<le> n \<and> n \<le> 222 \<and> n \<noteq> 215) then char_of (n + 32) else c)"

text \<open>The complement of the class \<open>[^a-z0-9\s]\<close>.\<close>

definition is_kept :: "char \<Rightarrow> bool" where
  "is_kept c \<longleftrightarrow>
     (let n = of_char c :: nat in (97 \<le> n \<and> n \<le> 122) \<or> (48 \<le> n \<and> n \<le> 57)) \<or> is_space c"

text \<open>\<open>replace(/\s+/g, " ")\<close>; the flag says that the previous character was white space.\<close>

fun collapse_spaces :: "bool \<Rightarrow> string \<Rightarrow> string" where
  "collapse_spaces prev [] = []"
| "collapse_spaces prev (c # cs) =
     (if is_space c then (if prev then collapse_spaces True cs else CHR '' '' # collapse_spaces True cs)
      else c # collapse_spaces False cs)"

definition normalize :: "string \<Rightarrow> string" where
  "normalize v =
     trim (collapse_spaces False (map (\<lambda>c. if is_kept c then c else CHR '' '') (map to_lower v)))"

fun slices2 :: "string \<Rightarrow> string list" where
  "slices2 (a # b # cs) = [a, b] # slices2 (b # cs)"
| "slices2 cs = []"

definition bigrams :: "string \<Rightarrow> string set" where
  "bigrams v = set (slices2 ('' '' @ normalize v @ '' ''))"

definition diceSimilarity :: "string \<Rightarrow> string \<Rightarrow> rat" where
  "diceSimilarity a b =
     (let A = bigrams a; B = bigrams b
      in if card A = 0 \<or> card B = 0 then 0
         else to_double (of_nat (2 * card (A \<inter> B)) / of_nat (card A + card B)))"

subsection \<open>findDuplicate\<close>

text \<open>
  The switch has one more branch, \<open>default: return []\<close>, which no value of the type
  \<open>ImportType\<close> reaches.
\<close>

definition requiredHeadersByType :: "ImportType \<Rightarrow> string list" where
  "requiredHeadersByType t =
     (case t of
        Imp_apple_reminders \<Rightarrow> [''title'']
      | Imp_apple_notes \<Rightarrow> [''title'']
      | Imp_chatgpt_projects \<Rightarrow> [''title'']
      | Imp_claude_projects \<Rightarrow> [''title''])"

definition typeToSource :: "ImportType \<Rightarrow> SourceType" where
  "typeToSource t =
     (if t = Imp_apple_reminders then Apple_reminders
      else if t = Imp_apple_notes then Apple_notes
      else if t = Imp_chatgpt_projects then Chatgpt
      else Claude)"

definition typeToEntity :: "ImportType \<Rightarrow> ImportEntityType option" where
  "typeToEntity t =
     (if t = Imp_apple_reminders then Some Entity_task
      else if t = Imp_chatgpt_projects \<or> t = Imp_claude_projects then Some Entity_project
      else None)"

text \<open>
  The task branch and the project branch of \<open>findDuplicate\<close> are the same text; \<open>match_in\<close>
  is that text over the ids and titles of the candidates. \<open>better\<close> is one turn of the loop
  that keeps the best candidate.
\<close>

definition better :: "string \<Rightarrow> (string \<times> string \<times> rat) option \<Rightarrow> string \<times> string
    \<Rightarrow> (string \<times> string \<times> rat) option" where
  "better ttl best item =
     (let sc = diceSimilarity (snd item) ttl
      in case best of
           None \<Rightarrow> Some (fst item, snd item, sc)
         | Some (bid, btitle, bscore) \<Rightarrow>
             if bscore < sc then Some (fst item, snd item, sc) else best)"

definition match_in :: "ImportEntityType \<Rightarrow> (string \<times> string) list \<Rightarrow> string
    \<Rightarrow> ImportDuplicateMatch option" where
  "match_in ety pool ttl =
     (case find (\<lambda>item. normalize (snd item) = normalize ttl) pool of
        Some exact \<Rightarrow>
          Some \<lparr>match_entityType = ety, match_id = fst exact, match_title = snd exact,
                match_score = 1, match_kind = Exact\<rparr>
      | None \<Rightarrow>
          (case foldl (better ttl) None pool of
             Some (bid, btitle, bscore) \<Rightarrow>
               if to_double (72 / 100) \<le> bscore then
                 Some \<lparr>match_entityType = ety, match_id = bid, match_title = btitle,
                       match_score = toFixed2 bscore, match_kind = Fuzzy\<rparr>
               else None
           | None \<Rightarrow> None))"

definition candidates :: "Store \<Rightarrow> SourceType \<Rightarrow> ImportEntityType \<Rightarrow> (string \<times> string) list" where
  "candidates db src ety =
     (if ety = Entity_task then
        map (\<lambda>t. (task_id t, title t)) (filter (\<lambda>t. source t = src) (listTasks db))
      else
        map (\<lambda>p. (project_id p, project_title p)) (filter (\<lambda>p. project_source p = src) (listProjects db)))"

definition findDuplicate :: "Store \<Rightarrow> SourceType \<Rightarrow> ImportEntityType \<Rightarrow> string
    \<Rightarrow> ImportDuplicateMatch option" where
  "findDuplicate db src ety ttl = match_in ety (candidates db src ety) ttl"

definition suggested :: "ImportDuplicateMatch option \<Rightarrow> ImportAction" where
  "suggested m = (case m of None \<Rightarrow> Create | Some d \<Rightarrow> (if match_kind d = Exact then Update else Skip))"

subsection \<open>previewImport\<close>

text \<open>\<open>Array.prototype.join\<close>\<close>

fun join :: "string \<Rightarrow> string list \<Rightarrow> string" where
  "join sep [] = []"
| "join sep [x] = x"
| "join sep (x # y # ys) = x @ sep @ join sep (y # ys)"

text \<open>\<open>headers.forEach((header, headerIndex) => { values[header] = row[headerIndex] ?? "" })\<close>\<close>

definition row_to_values :: "string list \<Rightarrow> string list \<Rightarrow> (string \<rightharpoonup> string)" where
  "row_to_values hs row =
     forEach_indexed (\<lambda>header headerIndex vals.
        vals(header \<mapsto> (if headerIndex < length row then row ! headerIndex else [])))
       hs 0 Map.empty"

definition preview_row :: "Store \<Rightarrow> ImportType \<Rightarrow> string list \<Rightarrow> string list \<Rightarrow> nat \<Rightarrow> ImportPreviewRow" where
  "preview_row db t hs row index =
     (let vals = row_to_values hs row;
          ttl = (case vals ''title'' of None \<Rightarrow> [] | Some v \<Rightarrow> trim v)
      in if ttl = [] then
           \<lparr>row_line = index + 2, row_values = vals, row_error = Some ''Missing required title'',
            duplicateMatch = None, suggestedAction = Skip\<rparr>
         else
           let m = (case typeToEntity t of
                      Some ety \<Rightarrow> findDuplicate db (typeToSource t) ety ttl
                    | None \<Rightarrow> None)
           in \<lparr>row_line = index + 2, row_values = vals, row_error = None,
               duplicateMatch = m, suggestedAction = suggested m\<rparr>)"

definition previewImport :: "Store \<Rightarrow> ImportPreviewRequest \<Rightarrow> ImportPreviewResponse" where
  "previewImport db payload =
     (let parsed = parseCsv (import_text payload);
          requiredHeaders = requiredHeadersByType (import_type payload);
          missingHeaders = filter (\<lambda>required. required \<notin> set (csv_headers parsed)) requiredHeaders
      in if length missingHeaders > 0 then
           \<lparr>resp_headers = csv_headers parsed,
            resp_rows = [\<lparr>row_line = 1, row_values = Map.empty,
                     row_error = Some (''Missing headers: '' @ join '', '' missingHeaders),
                     duplicateMatch = None, suggestedAction = Skip\<rparr>],
            validRows = 0, invalidRows = 1\<rparr>
         else
           let parsedRows = map (\<lambda>(index, row). preview_row db (import_type payload) (csv_headers parsed) row index)
                              (enumerate 0 (csv_rows parsed));
               invalid = int (length (filter (\<lambda>r. row_error r \<noteq> None \<and> row_error r \<noteq> Some []) parsedRows))
           in \<lparr>resp_headers = csv_headers parsed, resp_rows = parsedRows,
               validRows = int (length parsedRows) - invalid, invalidRows = invalid\<rparr>)"

section \<open>Lanes and their order values\<close>

definition lane :: "TaskStatus \<Rightarrow> Task list \<Rightarrow> Task list" where
  "lane st ts = filter (\<lambda>t. status t = st) ts"

definition lane_dense :: "TaskStatus \<Rightarrow> Task list \<Rightarrow> bool" where
  "lane_dense st ts \<longleftrightarrow>
     sort (map order_index (lane st ts)) = map int [0..<length (lane st ts)]"

fun index_of :: "'a list \<Rightarrow> 'a \<Rightarrow> nat" where
  "index_of [] y = 0"
| "index_of (x # xs) y = (if x = y then 0 else Suc (index_of xs y))"

fun assign :: "(nat \<Rightarrow> Task \<Rightarrow> Task) \<Rightarrow> string list \<Rightarrow> nat \<Rightarrow> Task list \<Rightarrow> Task list" where
  "assign upd [] k ts = ts"
| "assign upd (x # xs) k ts = assign upd xs (Suc k) (update_where (\<lambda>t. task_id t = x) (upd k) ts)"

definition lane_ids :: "TaskStatus \<Rightarrow> Task list \<Rightarrow> string list" where
  "lane_ids s0 ts = map task_id (order_by lane_le (filter (\<lambda>t. status t = s0) ts))"

definition renumber_lane :: "TaskStatus \<Rightarrow> Task list \<Rightarrow> Task list" where
  "renumber_lane s0 ts = assign (\<lambda>i t. t\<lparr>order_index := int i\<rparr>) (lane_ids s0 ts) 0 ts"

text \<open>The body of the transaction, as maps over the table.\<close>

definition final_ids :: "TaskStatus \<Rightarrow> string list \<Rightarrow> Task list \<Rightarrow> string list" where
  "final_ids to orderedIds ts1 =
     orderedIds @ map task_id (order_by lane_le
        (filter (\<lambda>t. status t = to \<and> task_id t \<notin> set orderedIds) ts1))"

definition mark_moved :: "string \<Rightarrow> TaskStatus \<Rightarrow> string \<Rightarrow> Task \<Rightarrow> Task" where
  "mark_moved mv to ts t =
     (if task_id t = mv then t\<lparr>status := to, updatedAt := ts\<rparr> else t)"

definition place :: "TaskStatus \<Rightarrow> string \<Rightarrow> string list \<Rightarrow> Task \<Rightarrow> Task" where
  "place to ts ids t =
     (if task_id t \<in> set ids
      then t\<lparr>status := to, order_index := int (index_of ids (task_id t)), updatedAt := ts\<rparr>
      else t)"

definition placed :: "string \<Rightarrow> TaskStatus \<Rightarrow> string list \<Rightarrow> string \<Rightarrow> Task list \<Rightarrow> Task list" where
  "placed mv to orderedIds ts ts0 =
     (let ts1 = map (mark_moved mv to ts) ts0
      in map (place to ts (final_ids to orderedIds ts1)) ts1)"

datatype lane_op = Reorder TaskReorderRequest | Delete string

definition apply_lane_op :: "Env \<Rightarrow> lane_op \<Rightarrow> Store \<Rightarrow> Store" where
  "apply_lane_op env op db =
     (case op of
        Reorder input \<Rightarrow> snd (reorderTasksInLane env input db)
      | Delete tid \<Rightarrow> snd (deleteTask env tid db))"

definition run_lane_ops :: "Env \<Rightarrow> lane_op list \<Rightarrow> Store \<Rightarrow> Store" where
  "run_lane_ops env ops db = fold (apply_lane_op env) ops db"

definition all_lanes_dense :: "Store \<Rightarrow> bool" where
  "all_lanes_dense db \<longleftrightarrow> (\<forall>st \<in> set TASK_STATUSES. lane_dense st (tasks db))"

section \<open>Tasks and the projects they point to\<close>

definition forget_order :: "Task \<Rightarrow> Task" where
  "forget_order t = t\<lparr>order_index := 0\<rparr>"

definition normalize_lane :: "TaskStatus \<Rightarrow> Store \<Rightarrow> Store" where
  "normalize_lane st d =
     forEach_indexed (\<lambda>row index. set_order_index (task_id row) index)
          (order_by normalize_le (filter (\<lambda>t. status t = st) (tasks d))) 0 d"

text \<open>Every task points to a project of the store.\<close>

definition refs_ok :: "Store \<Rightarrow> bool" where
  "refs_ok db \<longleftrightarrow> (\<forall>t \<in> set (tasks db). projectExists db (projectId t))"

text \<open>The operations of the store that write projects or tasks.\<close>

datatype store_op =
    CreateProject CreateProjectInput
  | UpdateProject string ProjectPatch
  | DeleteProject string
  | CreateTask CreateTaskInput
  | UpdateTask string TaskPatch
  | ReorderTasks TaskReorderRequest
  | DeleteTask string

definition apply_op :: "Env \<Rightarrow> store_op \<Rightarrow> Store \<Rightarrow> Store" where
  "apply_op env op db =
     (case op of
        CreateProject input \<Rightarrow> snd (createProject env input db)
      | UpdateProject pid patch \<Rightarrow> snd (updateProject env pid patch db)
      | DeleteProject pid \<Rightarrow> snd (deleteProject env pid db)
      | CreateTask input \<Rightarrow> snd (createTask env input db)
      | UpdateTask tid patch \<Rightarrow> snd (updateTask env tid patch db)
      | ReorderTasks input \<Rightarrow> snd (reorderTasksInLane env input db)
      | DeleteTask tid \<Rightarrow> snd (deleteTask env tid db))"


text \<open>
  The Dice coefficient of the two bigram sets as an exact fraction; \<open>diceSimilarity\<close> is this
  number rounded to binary64.
\<close>

definition dice_exact :: "string \<Rightarrow> string \<Rightarrow> rat" where
  "dice_exact a b =
     of_nat (2 * card (bigrams a \<inter> bigrams b)) / of_nat (card (bigrams a) + card (bigrams b))"


text \<open>What the body of the reorder transaction writes when none of its statements raises.\<close>

definition reorder_tx_writes :: "TaskReorderRequest \<Rightarrow> Task \<Rightarrow> string list \<Rightarrow> string \<Rightarrow> Store \<Rightarrow> Store" where
  "reorder_tx_writes input moved orderedIds ts db =
     (let db1 = db\<lparr>tasks := update_where (\<lambda>t. task_id t = movedTaskId input)
                    (\<lambda>t. t\<lparr>status := toStatus input, updatedAt := ts\<rparr>) (tasks db)\<rparr>;
          remaining =
            (if orderedIds \<noteq> [] then
               order_by lane_le
                 (filter (\<lambda>t. status t = toStatus input \<and> task_id t \<notin> set orderedIds) (tasks db1))
             else
               order_by lane_le
                 (filter (\<lambda>t. status t = toStatus input \<and> task_id t \<noteq> movedTaskId input) (tasks db1)));
          finalIds = orderedIds @ map task_id remaining;
          db2 = forEach_indexed
                  (\<lambda>taskId index d. d\<lparr>tasks := update_where (\<lambda>t. task_id t = taskId)
                       (\<lambda>t. t\<lparr>status := toStatus input, order_index := int index, updatedAt := ts\<rparr>)
                       (tasks d)\<rparr>)
                  finalIds 0 db1
      in if status moved \<noteq> toStatus input then
           forEach_indexed (\<lambda>row index. set_order_index (task_id row) index)
             (order_by lane_le (filter (\<lambda>t. status t = status moved) (tasks db2))) 0 db2
         else db2)"

text \<open>A reorder is accepted when it returns the list of tasks.\<close>

definition reorder_accepts :: "Env \<Rightarrow> TaskReorderRequest \<Rightarrow> Store \<Rightarrow> bool" where
  "reorder_accepts env input db \<longleftrightarrow>
     (case fst (reorderTasksInLane env input db) of Inr (Some ts) \<Rightarrow> True | _ \<Rightarrow> False)"

text \<open>The order value updateTask reads for the row it writes, as in its definition.\<close>

definition next_order_read :: "TaskPatch \<Rightarrow> Task \<Rightarrow> Store \<Rightarrow> error + int" where
  "next_order_read patch current db =
     (case tp_order patch of
        Some n \<Rightarrow> Inr (max 0 (math_trunc n))
      | None \<Rightarrow>
          if (case tp_status patch of Some s \<Rightarrow> s | None \<Rightarrow> status current) \<noteq> status current
          then getNextTaskOrder db (case tp_status patch of Some s \<Rightarrow> s | None \<Rightarrow> status current)
          else Inr (order_index current))"

section \<open>A small store for the concrete instances\<close>

text \<open>
  The clock and the identifiers of the example count upwards; its \<open>Date\<close> knows one
  instant, adds days of 24 hours and prints the day after.
\<close>

definition ex_env :: Env where
  "ex_env =
     \<lparr>clock = (\<lambda>n. ''2026-03-05T10:00:0'' @ [''0123456789'' ! (n mod 10)] @ ''.000Z''),
      uuids = (\<lambda>n. ''u'' @ [''0123456789'' ! (n mod 10)]),
      date_parse = (\<lambda>s. if s = ''2026-03-01T09:00:00.000Z'' then Some 1772355600000 else None),
      date_plus_days = (\<lambda>t n. Some (t + n * 86400000)),
      date_toISOString = (\<lambda>t. if t = 1772442000000 then ''2026-03-02T09:00:00.000Z'' else ''later'')\<rparr>"

definition ex_task :: "string \<Rightarrow> TaskStatus \<Rightarrow> int \<Rightarrow> Recurrence \<Rightarrow> Task" where
  "ex_task i st n r =
     \<lparr>task_id = i, title = ''Water plants'', details = None, status = st, priority = Medium,
      dueDate = Some ''2026-03-01T09:00:00.000Z'', scheduledAt = None, completedAt = None,
      projectId = ''proj-inbox'', source = Mission_control, order_index = n, recurrence = r,
      createdAt = ''2026-02-01T09:00:00.000Z'', updatedAt = ''2026-02-01T09:00:00.000Z''\<rparr>"

definition ex_inbox :: Project where
  "ex_inbox =
     \<lparr>project_id = ''proj-inbox'', project_title = ''Inbox'', description = None,
      project_status = P_active, project_dueDate = None, completionPercent = 0,
      project_source = Mission_control, project_createdAt = ''2026-02-01T09:00:00.000Z'',
      project_updatedAt = ''2026-02-01T09:00:00.000Z''\<rparr>"

definition ex_orion :: Project where
  "ex_orion = ex_inbox\<lparr>project_id := ''proj-orion'', project_title := ''Orion'', project_source := Claude\<rparr>"

definition ex_store :: Store where
  "ex_store =
     \<lparr>projects = [ex_inbox, ex_orion],
      tasks = [ex_task ''task-a'' Todo 0 Daily, ex_task ''task-b'' Todo 1 Rec_none,
               ex_task ''task-c'' Todo 2 Rec_none,
               (ex_task ''task-d'' In_progress 0 Rec_none)\<lparr>projectId := ''proj-orion''\<rparr>,
               ex_task ''task-e'' Done 0 Rec_none],
      content_entries = [], activity = [], clock_reads = 0, uuid_draws = 0\<rparr>"

definition ex_ops :: "lane_op list" where
  "ex_ops =
     [Reorder \<lparr>movedTaskId = ''task-a'', toStatus = Done, orderedTaskIds = [''task-a'', ''task-e'']\<rparr>,
      Delete ''task-b'']"

definition ex_complete :: TaskPatch where
  "ex_complete =
     \<lparr>tp_title = None, tp_details = Omitted, tp_status = Some Done, tp_priority = None,
      tp_dueDate = Omitted, tp_scheduledAt = Omitted, tp_projectId = Omitted, tp_order = None,
      tp_recurrence = None\<rparr>"


definition ex_rename :: TaskPatch where
  "ex_rename = ex_complete\<lparr>tp_title := Some ''Water the plants'', tp_status := None\<rparr>"

definition ex_move_project :: TaskPatch where
  "ex_move_project = ex_complete\<lparr>tp_status := None, tp_projectId := Value ''proj-gone''\<rparr>"

definition ex_new_task :: CreateTaskInput where
  "ex_new_task =
     \<lparr>ct_title = ''Call the bank'', ct_details = None, ct_status = None, ct_priority = None,
      ct_dueDate = None, ct_scheduledAt = None, ct_projectId = Some ''proj-gone'',
      ct_source = None, ct_recurrence = None\<rparr>"

definition ex_drag_to_done :: TaskReorderRequest where
  "ex_drag_to_done =
     \<lparr>movedTaskId = ''task-a'', toStatus = Done, orderedTaskIds = [''task-a'', ''task-e'']\<rparr>"

text \<open>
  A store with three reminders that were imported earlier, beside the five tasks of the
  store above, and a sheet whose first line names no title.
\<close>

definition ex_reminder :: "string \<Rightarrow> string \<Rightarrow> int \<Rightarrow> Task" where
  "ex_reminder i ttl n = (ex_task i Todo n Rec_none)\<lparr>title := ttl, source := Apple_reminders\<rparr>"

definition ex_import_store :: Store where
  "ex_import_store =
     ex_store\<lparr>tasks := tasks ex_store @
       [ex_reminder ''task-r1'' ''Book tickets'' 3, ex_reminder ''task-r2'' ''Pay rents'' 4,
        ex_reminder ''task-r3'' ''Pay Rent!'' 5]\<rparr>"

definition ex_sheet :: ImportPreviewRequest where
  "ex_sheet =
     \<lparr>import_type = Imp_apple_reminders,
      import_text = ''name,notes'' @ [CHR 0x0A] @ ''Buy milk,two litres'' @ [CHR 0x0A] @ ''Pay rent,''\<rparr>"







section \<open>Renumbering a lane\<close>

lemma map_index_of_distinct: "distinct xs \<Longrightarrow> map (index_of xs) xs = [0..<length xs]"
proof (induction xs)
  case Nil
  then show ?case by simp
next
  case (Cons x xs)
  then have "map (index_of (x # xs)) xs = map (Suc \<circ> index_of xs) xs"
    by (intro map_cong) auto
  also have "\<dots> = map Suc (map (index_of xs) xs)"
    by simp
  also have "\<dots> = map Suc [0..<length xs]"
    using Cons by simp
  finally have "map (index_of (x # xs)) xs = [Suc 0..<Suc (length xs)]"
    by (simp add: map_Suc_upt)
  moreover have "index_of (x # xs) x = 0" by simp
  moreover have "[0..<length (x # xs)] = 0 # [Suc 0..<Suc (length xs)]"
    by (simp add: upt_conv_Cons del: upt_Suc)
  ultimately show ?case by (simp only: list.map)
qed

lemma forEach_indexed_map:
  "forEach_indexed (\<lambda>row. f (g row)) rows k s = forEach_indexed f (map g rows) k s"
  by (induction rows arbitrary: k s) auto

lemma mset_insort_by: "mset (insort_by le x xs) = add_mset x (mset xs)"
  by (induction xs) auto

lemma mset_order_by: "mset (order_by le xs) = mset xs"
  unfolding order_by_def by (induction xs) (auto simp: mset_insort_by)

lemma set_order_by: "set (order_by le xs) = set xs"
  by (metis mset_order_by set_mset_mset)

lemma distinct_map_order_by: "distinct (map f (order_by le xs)) = distinct (map f xs)"
proof -
  have "mset (map f (order_by le xs)) = mset (map f xs)"
    by (simp add: mset_order_by)
  then show ?thesis by (rule mset_eq_imp_distinct_iff)
qed

lemma lane_dense_enumerated:
  assumes "distinct (map task_id ts)" and "distinct ids"
    and lane_ids: "\<And>t. t \<in> set ts \<Longrightarrow> (status t = st) = (task_id t \<in> set ids)"
    and "set ids \<subseteq> task_id ` set ts"
    and ord: "\<And>t. t \<in> set ts \<Longrightarrow> task_id t \<in> set ids \<Longrightarrow> order_index t = int (index_of ids (task_id t))"
  shows "lane_dense st ts"
proof -
  let ?l = "lane st ts"
  have mem: "\<And>t. t \<in> set ?l \<longleftrightarrow> t \<in> set ts \<and> task_id t \<in> set ids"
    using lane_ids by (auto simp: lane_def)
  have d: "distinct (map task_id ?l)"
    using assms(1) by (simp add: lane_def distinct_map_filter)
  have "task_id ` set ?l = set ids"
  proof (intro set_eqI iffI)
    fix x assume "x \<in> task_id ` set ?l"
    then show "x \<in> set ids" using mem by blast
  next
    fix x assume "x \<in> set ids"
    then obtain t where "t \<in> set ts" "task_id t = x" using assms(4) by blast
    then show "x \<in> task_id ` set ?l" using mem \<open>x \<in> set ids\<close> by blast
  qed
  then have s: "set (map task_id ?l) = set ids" by simp
  have m: "mset (map task_id ?l) = mset ids"
    using d s assms(2) by (simp only: set_eq_iff_mset_eq_distinct)
  then have "size (mset (map task_id ?l)) = size (mset ids)" by (simp only:)
  then have len: "length ?l = length ids" by simp
  have "map order_index ?l = map (\<lambda>t. int (index_of ids (task_id t))) ?l"
  proof (rule map_cong[OF refl])
    fix t assume "t \<in> set ?l"
    then show "order_index t = int (index_of ids (task_id t))" using mem ord by blast
  qed
  also have "\<dots> = map (\<lambda>i. int (index_of ids i)) (map task_id ?l)"
    by (simp add: comp_def)
  finally have "mset (map order_index ?l) = image_mset (\<lambda>i. int (index_of ids i)) (mset (map task_id ?l))"
    by (simp only: mset_map)
  also have "\<dots> = mset (map (\<lambda>i. int (index_of ids i)) ids)"
    using m by simp
  also have "map (\<lambda>i. int (index_of ids i)) ids = map int (map (index_of ids) ids)"
    by (simp add: comp_def)
  also have "\<dots> = map int [0..<length ?l]"
    using assms(2) by (simp only: map_index_of_distinct len)
  finally have "mset (map order_index ?l) = mset (map int [0..<length ?l])" .
  moreover have "sorted (map int [0..<length ?l])"
    by (rule sorted_wrt_mono_rel[of _ "(<)"]) (auto simp: sorted_wrt_map)
  ultimately show ?thesis
    unfolding lane_dense_def by (intro properties_for_sort) simp_all
qed

lemma lane_map_unchanged:
  assumes same: "\<And>t. t \<in> set ts \<Longrightarrow> status t = st \<Longrightarrow> F t = t"
    and conv: "\<And>t. t \<in> set ts \<Longrightarrow> status (F t) = st \<Longrightarrow> status t = st"
  shows "lane st (map F ts) = lane st ts"
proof -
  have "filter (\<lambda>t. status t = st) (map F ts) = map F (filter (\<lambda>t. status (F t) = st) ts)"
    by (simp only: filter_map comp_def)
  also have "filter (\<lambda>t. status (F t) = st) ts = filter (\<lambda>t. status t = st) ts"
  proof (rule filter_cong[OF refl])
    fix t assume "t \<in> set ts"
    then show "(status (F t) = st) = (status t = st)"
      using same[of t] conv[of t] by metis
  qed
  also have "map F (filter (\<lambda>t. status t = st) ts) = filter (\<lambda>t. status t = st) ts"
  proof (rule map_idI)
    fix t assume "t \<in> set (filter (\<lambda>t. status t = st) ts)"
    then show "F t = t" using same by simp
  qed
  finally show ?thesis by (simp only: lane_def)
qed

lemma find_SomeD: "find P xs = Some x \<Longrightarrow> x \<in> set xs \<and> P x"
  by (induction xs) (auto split: if_splits)


lemma distinct_map_eqD:
  "distinct (map f xs) \<Longrightarrow> x \<in> set xs \<Longrightarrow> y \<in> set xs \<Longrightarrow> f x = f y \<Longrightarrow> x = y"
  by (auto simp: distinct_map dest: inj_onD)

lemma forEach_assign:
  "forEach_indexed
     (\<lambda>x i d. d\<lparr>tasks := update_where (\<lambda>t. task_id t = x) (upd i) (tasks d)\<rparr>) ids k db
   = db\<lparr>tasks := assign upd ids k (tasks db)\<rparr>"
  by (induction ids arbitrary: k db) simp_all

lemma assign_distinct:
  assumes keep: "\<And>i t. task_id (upd i t) = task_id t" and "distinct ids"
  shows "assign upd ids k ts =
         map (\<lambda>t. if task_id t \<in> set ids then upd (k + index_of ids (task_id t)) t else t) ts"
  using assms(2)
proof (induction ids arbitrary: k ts)
  case Nil
  then show ?case by simp
next
  case (Cons x xs)
  have "\<And>t. (if task_id (if task_id t = x then upd k t else t) \<in> set xs
            then upd (Suc k + index_of xs (task_id (if task_id t = x then upd k t else t)))
                   (if task_id t = x then upd k t else t)
            else (if task_id t = x then upd k t else t))
        = (if task_id t \<in> set (x # xs) then upd (k + index_of (x # xs) (task_id t)) t else t)"
    using Cons.prems by (auto simp: keep)
  then have "map (\<lambda>t. if task_id t \<in> set xs
                                  then upd (Suc k + index_of xs (task_id t)) t else t)
              (update_where (\<lambda>t. task_id t = x) (upd k) ts)
       = map (\<lambda>t. if task_id t \<in> set (x # xs)
                                  then upd (k + index_of (x # xs) (task_id t)) t else t) ts"
    by (simp add: update_where_def comp_def)
  moreover have "assign upd (x # xs) k ts =
     map (\<lambda>t. if task_id t \<in> set xs then upd (Suc k + index_of xs (task_id t)) t else t)
       (update_where (\<lambda>t. task_id t = x) (upd k) ts)"
    using Cons by simp
  ultimately show ?case by (simp only:)
qed

lemma forEach_renumber_lane:
  "forEach_indexed (\<lambda>row index. set_order_index (task_id row) index)
       (order_by lane_le (filter (\<lambda>t. status t = s0) (tasks d))) 0 d
   = d\<lparr>tasks := renumber_lane s0 (tasks d)\<rparr>"
proof -
  have "forEach_indexed (\<lambda>row index. set_order_index (task_id row) index)
       (order_by lane_le (filter (\<lambda>t. status t = s0) (tasks d))) 0 d
     = forEach_indexed (\<lambda>x i d. d\<lparr>tasks := update_where (\<lambda>t. task_id t = x)
             (\<lambda>t. t\<lparr>order_index := int i\<rparr>) (tasks d)\<rparr>) (lane_ids s0 (tasks d)) 0 d"
    unfolding lane_ids_def set_order_index_def by (rule forEach_indexed_map)
  then show ?thesis
    by (simp only: forEach_assign renumber_lane_def)
qed

lemma forEach_renumber_lane_tasks:
  "tasks d = ts \<Longrightarrow>
   tasks (forEach_indexed (\<lambda>row index. set_order_index (task_id row) index)
       (order_by lane_le (filter (\<lambda>t. status t = s0) ts)) 0 d) = renumber_lane s0 ts"
  using forEach_renumber_lane[of s0 d] by auto

lemma forEach_renumber_lane_projects:
  "projects (forEach_indexed (\<lambda>row index. set_order_index (task_id row) index) rows k d) = projects d"
  by (induction rows arbitrary: k d) (simp_all add: set_order_index_def)

lemma set_lane_ids: "set (lane_ids s0 ts) = task_id ` {t \<in> set ts. status t = s0}"
  by (simp add: lane_ids_def set_order_by)

lemma distinct_lane_ids: "distinct (map task_id ts) \<Longrightarrow> distinct (lane_ids s0 ts)"
  by (simp add: lane_ids_def distinct_map_order_by distinct_map_filter)

lemma renumber_lane_tasks:
  assumes "distinct (map task_id ts)"
  shows "renumber_lane s0 ts =
         map (\<lambda>t. if task_id t \<in> set (lane_ids s0 ts)
                   then t\<lparr>order_index := int (index_of (lane_ids s0 ts) (task_id t))\<rparr> else t) ts"
  unfolding renumber_lane_def
  by (subst assign_distinct) (simp_all add: distinct_lane_ids assms)

lemma lane_dense_after_assign:
  assumes "distinct (map task_id ts)" and "distinct ids" and "set ids \<subseteq> task_id ` set ts"
    and keep: "\<And>t. task_id (G t) = task_id t"
    and inl: "\<And>t. t \<in> set ts \<Longrightarrow> task_id t \<in> set ids \<Longrightarrow>
                 status (G t) = st \<and> order_index (G t) = int (index_of ids (task_id t))"
    and outl: "\<And>t. t \<in> set ts \<Longrightarrow> task_id t \<notin> set ids \<Longrightarrow> status (G t) \<noteq> st"
  shows "lane_dense st (map G ts)"
proof (rule lane_dense_enumerated[where ids = ids])
  show "distinct (map task_id (map G ts))"
    using assms(1) by (simp add: comp_def keep)
  show "distinct ids" by fact
  show "set ids \<subseteq> task_id ` set (map G ts)"
    using assms(3) by (simp add: image_image keep)
next
  fix t assume "t \<in> set (map G ts)"
  then obtain t0 where t0: "t0 \<in> set ts" "t = G t0" by auto
  show "(status t = st) = (task_id t \<in> set ids)"
    using t0 inl[of t0] outl[of t0] keep[of t0] by metis
  assume "task_id t \<in> set ids"
  then show "order_index t = int (index_of ids (task_id t))"
    using t0 inl[of t0] keep[of t0] by metis
qed

lemma renumber_lane_ids: 
  "distinct (map task_id ts) \<Longrightarrow> map task_id (renumber_lane s0 ts) = map task_id ts"
  by (simp add: renumber_lane_tasks comp_def if_distrib[of task_id] cong: if_cong)

lemma renumber_lane_dense:
  assumes "distinct (map task_id ts)"
  shows "lane_dense s0 (renumber_lane s0 ts)"
proof -
  let ?ids = "lane_ids s0 ts"
  let ?G = "\<lambda>t. if task_id t \<in> set ?ids then t\<lparr>order_index := int (index_of ?ids (task_id t))\<rparr> else t"
  have "lane_dense s0 (map ?G ts)"
  proof (rule lane_dense_after_assign[where ids = ?ids])
    show "distinct (map task_id ts)" by fact
    show "distinct ?ids" using assms by (rule distinct_lane_ids)
    show "set ?ids \<subseteq> task_id ` set ts" by (auto simp: set_lane_ids)
    show "\<And>t. task_id (?G t) = task_id t" by simp
  next
    fix t assume t: "t \<in> set ts" and "task_id t \<in> set ?ids"
    then obtain t1 where "t1 \<in> set ts" "status t1 = s0" "task_id t1 = task_id t"
      by (auto simp: set_lane_ids)
    then have "status t = s0" using distinct_map_eqD[OF assms, of t1 t] t by auto
    then show "status (?G t) = s0 \<and> order_index (?G t) = int (index_of ?ids (task_id t))"
      using \<open>task_id t \<in> set ?ids\<close> by simp
  next
    fix t assume t: "t \<in> set ts" and "task_id t \<notin> set ?ids"
    then show "status (?G t) \<noteq> s0" by (auto simp: set_lane_ids)
  qed
  then show ?thesis by (simp add: renumber_lane_tasks[OF assms])
qed

lemma renumber_lane_other:
  assumes "distinct (map task_id ts)" and "st \<noteq> s0"
  shows "lane st (renumber_lane s0 ts) = lane st ts"
proof -
  let ?ids = "lane_ids s0 ts"
  let ?G = "\<lambda>t. if task_id t \<in> set ?ids then t\<lparr>order_index := int (index_of ?ids (task_id t))\<rparr> else t"
  have "lane st (map ?G ts) = lane st ts"
  proof (rule lane_map_unchanged)
    fix t assume t: "t \<in> set ts" and st: "status t = st"
    have "task_id t \<notin> set ?ids"
    proof
      assume "task_id t \<in> set ?ids"
      then obtain t1 where "t1 \<in> set ts" "status t1 = s0" "task_id t1 = task_id t"
        by (auto simp: set_lane_ids)
      then have "t1 = t" using distinct_map_eqD[OF assms(1), of t1 t] t by auto
      then show False using \<open>status t1 = s0\<close> st assms(2) by simp
    qed
    then show "?G t = t" by simp
  next
    fix t assume "t \<in> set ts" and "status (?G t) = st"
    then show "status t = st" by (simp split: if_splits)
  qed
  then show ?thesis by (simp add: renumber_lane_tasks[OF assms(1)])
qed

lemma tasks_insertActivity [simp]: "tasks (insertActivity env e i a db) = tasks db"
  by (simp add: insertActivity_def createId_def now_def Let_def)

lemma projects_insertActivity [simp]: "projects (insertActivity env e i a db) = projects db"
  by (simp add: insertActivity_def createId_def now_def Let_def)

lemma deleteTask_tasks:
  "tasks (snd (deleteTask env tid db)) =
     (case find (\<lambda>t. task_id t = tid) (tasks db) of
        None \<Rightarrow> tasks db
      | Some task \<Rightarrow> renumber_lane (status task) (filter (\<lambda>t. task_id t \<noteq> tid) (tasks db)))"
proof (cases "find (\<lambda>t. task_id t = tid) (tasks db)")
  case None
  then show ?thesis by (simp add: deleteTask_def)
next
  case (Some task)
  let ?db2 = "db\<lparr>content_entries :=
                      filter (\<lambda>e. \<not> (parentType e = Parent_task \<and> parentId e = tid)) (content_entries db),
                 tasks := filter (\<lambda>t. task_id t \<noteq> tid) (tasks db)\<rparr>"
  have "tasks (snd (deleteTask env tid db)) =
        tasks (forEach_indexed (\<lambda>row index. set_order_index (task_id row) index)
                 (order_by lane_le (filter (\<lambda>t. status t = status task) (tasks ?db2))) 0 ?db2)"
    using Some by (simp add: deleteTask_def Let_def)
  also have "\<dots> = renumber_lane (status task) (tasks ?db2)"
    by (rule forEach_renumber_lane_tasks) simp
  finally show ?thesis using Some by simp
qed

lemma all_ids_exist:
  assumes "distinct (map task_id ts)" and "distinct ids"
    and "length (filter (\<lambda>t. task_id t \<in> set ids) ts) = length ids"
  shows "set ids \<subseteq> task_id ` set ts"
proof -
  let ?rows = "filter (\<lambda>t. task_id t \<in> set ids) ts"
  have "distinct (map task_id ?rows)"
    using assms(1) by (simp add: distinct_map_filter)
  then have "card (set (map task_id ?rows)) = length (map task_id ?rows)"
    by (rule distinct_card)
  moreover have "set (map task_id ?rows) = set ids \<inter> task_id ` set ts"
    by auto
  moreover have "card (set ids) = length ids"
    using assms(2) by (rule distinct_card)
  ultimately have "card (set ids \<inter> task_id ` set ts) = card (set ids)"
    using assms(3) by simp
  then have "set ids \<inter> task_id ` set ts = set ids"
    by (intro card_subset_eq) auto
  then show ?thesis by blast
qed

lemma distinct_array_from_set [simp]: "distinct (array_from_set xs)"
  by (simp add: array_from_set_def)


lemma task_id_mark_moved [simp]: "task_id (mark_moved mv to ts t) = task_id t"
  by (simp add: mark_moved_def)

lemma task_id_place [simp]: "task_id (place to ts ids t) = task_id t"
  by (simp add: place_def)

lemma ids_placed [simp]: "map task_id (placed mv to orderedIds ts ts0) = map task_id ts0"
  by (simp add: placed_def Let_def comp_def)

lemma distinct_final_ids:
  assumes "distinct (map task_id ts1)" and "distinct orderedIds"
  shows "distinct (final_ids to orderedIds ts1)"
proof -
  have "distinct (map task_id (filter (\<lambda>t. status t = to \<and> task_id t \<notin> set orderedIds) ts1))"
    using assms(1) by (rule distinct_map_filter)
  then show ?thesis
    using assms(2) by (auto simp: final_ids_def distinct_map_order_by set_order_by)
qed

lemma set_final_ids:
  "set (final_ids to orderedIds ts1) =
     set orderedIds \<union> task_id ` {t \<in> set ts1. status t = to \<and> task_id t \<notin> set orderedIds}"
  by (simp add: final_ids_def set_order_by)

lemma reorder_tx_result:
  "reorder_tx input moved orderedIds ts db =
     (if orderedIds \<noteq> [] \<and> SQLITE_MAX_VARIABLE_NUMBER < Suc (length orderedIds)
      then Inl SqliteTooManyVariables
      else Inr (reorder_tx_writes input moved orderedIds ts db))"
  by (simp add: reorder_tx_def reorder_tx_writes_def Let_def)

lemma reorder_tx_tasks:
  assumes "orderedIds \<noteq> []" and "distinct (map task_id (tasks db))" and "distinct orderedIds"
  shows "tasks (reorder_tx_writes input moved orderedIds ts db) =
     (let ts2 = placed (movedTaskId input) (toStatus input) orderedIds ts (tasks db)
      in if status moved \<noteq> toStatus input then renumber_lane (status moved) ts2 else ts2)"
proof -
  let ?to = "toStatus input"
  let ?ts1 = "map (mark_moved (movedTaskId input) ?to ts) (tasks db)"
  let ?ids = "final_ids ?to orderedIds ?ts1"
  have ts1: "update_where (\<lambda>t. task_id t = movedTaskId input)
               (\<lambda>t. t\<lparr>status := ?to, updatedAt := ts\<rparr>) (tasks db) = ?ts1"
    by (simp add: update_where_def mark_moved_def)
  have d: "distinct ?ids"
    using assms(2,3) by (intro distinct_final_ids) (simp_all add: comp_def)
  have "assign (\<lambda>i t. t\<lparr>status := ?to, order_index := int i, updatedAt := ts\<rparr>) ?ids 0 ?ts1
        = map (place ?to ts ?ids) ?ts1"
    using d by (subst assign_distinct) (simp_all add: place_def)
  then have step: "forEach_indexed
                  (\<lambda>taskId index d. d\<lparr>tasks := update_where (\<lambda>t. task_id t = taskId)
                       (\<lambda>t. t\<lparr>status := ?to, order_index := int index, updatedAt := ts\<rparr>)
                       (tasks d)\<rparr>)
                  ?ids 0 (db\<lparr>tasks := ?ts1\<rparr>)
       = db\<lparr>tasks := placed (movedTaskId input) ?to orderedIds ts (tasks db)\<rparr>"
    by (simp add: forEach_assign placed_def Let_def)
  have rem: "(if orderedIds \<noteq> [] then
               order_by lane_le
                 (filter (\<lambda>t. status t = ?to \<and> task_id t \<notin> set orderedIds) ?ts1)
             else
               order_by lane_le
                 (filter (\<lambda>t. status t = ?to \<and> task_id t \<noteq> movedTaskId input) ?ts1))
        = order_by lane_le (filter (\<lambda>t. status t = ?to \<and> task_id t \<notin> set orderedIds) ?ts1)"
    using assms(1) by simp
  have "reorder_tx_writes input moved orderedIds ts db =
       (let db2 = db\<lparr>tasks := placed (movedTaskId input) ?to orderedIds ts (tasks db)\<rparr>
        in if status moved \<noteq> ?to then
           forEach_indexed (\<lambda>row index. set_order_index (task_id row) index)
             (order_by lane_le (filter (\<lambda>t. status t = status moved) (tasks db2))) 0 db2
         else db2)"
    using assms(1) by (simp add: reorder_tx_writes_def Let_def ts1 step[unfolded final_ids_def])
  then show ?thesis
    by (simp add: Let_def forEach_renumber_lane_tasks)
qed

lemma placed_dense_target:
  assumes d: "distinct (map task_id ts0)" and "distinct orderedIds"
    and sub: "set orderedIds \<subseteq> task_id ` set ts0"
  shows "lane_dense to (placed mv to orderedIds ts ts0)"
proof -
  let ?ts1 = "map (mark_moved mv to ts) ts0"
  let ?ids = "final_ids to orderedIds ?ts1"
  have d1: "distinct (map task_id ?ts1)" using d by (simp add: comp_def)
  have "lane_dense to (map (place to ts ?ids) ?ts1)"
  proof (rule lane_dense_after_assign[where ids = ?ids])
    show "distinct (map task_id ?ts1)" by (rule d1)
    show "distinct ?ids" using d1 assms(2) by (rule distinct_final_ids)
    have im: "task_id ` set ?ts1 = task_id ` set ts0" by (simp add: image_image)
    have "task_id ` {t \<in> set ?ts1. status t = to \<and> task_id t \<notin> set orderedIds}
            \<subseteq> task_id ` set ?ts1"
      by (rule image_mono) (rule Collect_restrict)
    then show "set ?ids \<subseteq> task_id ` set ?ts1"
      using sub unfolding set_final_ids im by (rule_tac Un_least)
    show "\<And>t. task_id (place to ts ?ids t) = task_id t" by simp
  next
    fix t assume "t \<in> set ?ts1" and "task_id t \<in> set ?ids"
    then show "status (place to ts ?ids t) = to \<and>
               order_index (place to ts ?ids t) = int (index_of ?ids (task_id t))"
      by (simp add: place_def)
  next
    fix t assume t: "t \<in> set ?ts1" and out: "task_id t \<notin> set ?ids"
    have "status t \<noteq> to"
    proof
      assume "status t = to"
      then have "task_id t \<in> set orderedIds \<or>
          t \<in> {t \<in> set ?ts1. status t = to \<and> task_id t \<notin> set orderedIds}"
        using t by (simp only: mem_Collect_eq simp_thms)
      then have "task_id t \<in> set ?ids"
        unfolding set_final_ids by (rule disjE) (rule UnI1, assumption, rule UnI2, rule imageI, assumption)
      then show False using out by contradiction
    qed
    then show "status (place to ts ?ids t) \<noteq> to"
      using out by (simp add: place_def)
  qed
  then show ?thesis by (simp add: placed_def Let_def)
qed

lemma placed_other_lane:
  assumes d: "distinct (map task_id ts0)"
    and moved: "moved \<in> set ts0" "task_id moved = mv"
    and valid: "\<And>t. t \<in> set ts0 \<Longrightarrow> task_id t \<in> set orderedIds \<Longrightarrow> task_id t = mv \<or> status t = to"
    and st: "st \<noteq> to" "st \<noteq> status moved"
  shows "lane st (placed mv to orderedIds ts ts0) = lane st ts0"
proof -
  let ?ts1 = "map (mark_moved mv to ts) ts0"
  let ?ids = "final_ids to orderedIds ?ts1"
  let ?F = "\<lambda>t. place to ts ?ids (mark_moved mv to ts t)"
  have "lane st (map ?F ts0) = lane st ts0"
  proof (rule lane_map_unchanged)
    fix t assume t: "t \<in> set ts0" and s: "status t = st"
    have nm: "task_id t \<noteq> mv"
      using distinct_map_eqD[OF d t moved(1)] moved(2) s st(2) by auto
    then have mk: "mark_moved mv to ts t = t" by (simp add: mark_moved_def)
    have "task_id t \<notin> set ?ids"
    proof
      assume "task_id t \<in> set ?ids"
      then have "task_id t \<in> set orderedIds \<or>
                 (\<exists>t0 \<in> set ts0. status (mark_moved mv to ts t0) = to \<and> task_id t0 = task_id t)"
        unfolding set_final_ids by auto
      then show False
      proof (elim disjE bexE conjE)
        assume "task_id t \<in> set orderedIds"
        then show False using valid[OF t] nm s st(1) by auto
      next
        fix t0 assume t0: "t0 \<in> set ts0" "status (mark_moved mv to ts t0) = to"
          "task_id t0 = task_id t"
        then have "t0 = t" using distinct_map_eqD[OF d t0(1) t] by simp
        then show False using t0(2) mk s st(1) by simp
      qed
    qed
    then show "?F t = t" using mk by (simp add: place_def)
  next
    fix t assume t: "t \<in> set ts0" and s: "status (?F t) = st"
    have "status (?F t) = (if task_id t \<in> set ?ids \<or> task_id t = mv then to else status t)"
      by (simp add: place_def mark_moved_def)
    then show "status t = st"
      using s st(1) by (simp split: if_splits)
  qed
  then show ?thesis by (simp add: placed_def Let_def comp_def)
qed

lemma lane_filter_other:
  assumes "\<And>t. t \<in> set ts \<Longrightarrow> status t = st \<Longrightarrow> P t"
  shows "lane st (filter P ts) = lane st ts"
  unfolding lane_def filter_filter using assms by (intro filter_cong) auto

text \<open>The two operations keep the primary key and make every lane dense.\<close>

lemma deleteTask_ids:
  assumes d: "distinct (map task_id (tasks db))"
  shows "distinct (map task_id (tasks (snd (deleteTask env tid db))))"
proof (cases "find (\<lambda>t. task_id t = tid) (tasks db)")
  case None
  then show ?thesis using d by (simp add: deleteTask_tasks)
next
  case (Some task)
  have "distinct (map task_id (filter (\<lambda>t. task_id t \<noteq> tid) (tasks db)))"
    using d by (rule distinct_map_filter)
  then show ?thesis using Some by (simp add: deleteTask_tasks renumber_lane_ids)
qed

lemma deleteTask_dense:
  assumes d: "distinct (map task_id (tasks db))" and dense: "lane_dense st (tasks db)"
  shows "lane_dense st (tasks (snd (deleteTask env tid db)))"
proof (cases "find (\<lambda>t. task_id t = tid) (tasks db)")
  case None
  then show ?thesis using dense by (simp add: deleteTask_tasks)
next
  case (Some task)
  let ?ts = "filter (\<lambda>t. task_id t \<noteq> tid) (tasks db)"
  have d': "distinct (map task_id ?ts)" using d by (rule distinct_map_filter)
  have res: "tasks (snd (deleteTask env tid db)) = renumber_lane (status task) ?ts"
    using Some by (simp add: deleteTask_tasks)
  show ?thesis
  proof (cases "st = status task")
    case True
    then show ?thesis using renumber_lane_dense[OF d'] res by simp
  next
    case False
    have task: "task \<in> set (tasks db)" "task_id task = tid"
      using find_SomeD[OF Some] by auto
    have "lane st (renumber_lane (status task) ?ts) = lane st ?ts"
      using d' False by (rule renumber_lane_other)
    also have "\<dots> = lane st (tasks db)"
    proof (rule lane_filter_other)
      fix t assume "t \<in> set (tasks db)" and "status t = st"
      then show "task_id t \<noteq> tid"
        using distinct_map_eqD[OF d _ task(1), of t] task(2) False by auto
    qed
    finally show ?thesis using dense res by (simp add: lane_dense_def)
  qed
qed

lemma reorder_rejected_or_accepted:
  assumes m: "find (\<lambda>t. task_id t = movedTaskId input) (tasks db) = Some moved"
  defines "orderedIds \<equiv> array_from_set (filter (\<lambda>s. s \<noteq> []) (orderedTaskIds input))"
  defines "rows \<equiv> filter (\<lambda>t. task_id t \<in> set orderedIds) (tasks db)"
  shows "reorderTasksInLane env input db =
     (if movedTaskId input \<notin> set orderedIds then (Inr None, db)
      else if SQLITE_MAX_VARIABLE_NUMBER < length orderedIds then (Inl SqliteTooManyVariables, db)
      else if length rows \<noteq> length orderedIds \<or>
         (\<exists>row \<in> set rows. task_id row \<noteq> movedTaskId input \<and> status row \<noteq> toStatus input)
      then (Inr None, db)
      else if SQLITE_MAX_VARIABLE_NUMBER < Suc (length orderedIds)
      then (Inl SqliteTooManyVariables, snd (now env db))
      else
        let db3 = insertActivity env Act_task (movedTaskId input) ''reordered''
                    (reorder_tx_writes input moved orderedIds (fst (now env db)) (snd (now env db)))
        in (Inr (Some (listTasks db3)), db3))"
proof (cases "movedTaskId input \<in> set orderedIds")
  case False
  then show ?thesis
    unfolding reorderTasksInLane_def m option.case Let_def orderedIds_def
    by (simp only: if_True simp_thms)
next
  case True
  from length_pos_if_in_set[OF True] have ne: "orderedIds \<noteq> []" by simp
  have guard: "(orderedIds \<noteq> [] \<and> P) = P" for P using ne by simp
  let ?bad = "length rows \<noteq> length orderedIds \<or>
         (\<exists>row \<in> set rows. task_id row \<noteq> movedTaskId input \<and> status row \<noteq> toStatus input)"
  have unfolded: "reorderTasksInLane env input db =
     (if SQLITE_MAX_VARIABLE_NUMBER < length orderedIds then (Inl SqliteTooManyVariables, db)
      else if ?bad then (Inr None, db)
      else (case (if SQLITE_MAX_VARIABLE_NUMBER < Suc (length orderedIds)
                  then Inl SqliteTooManyVariables
                  else Inr (reorder_tx_writes input moved orderedIds (fst (now env db)) (snd (now env db)))) of
              Inl e \<Rightarrow> (Inl e, snd (now env db))
            | Inr db2 \<Rightarrow>
                (Inr (Some (listTasks (insertActivity env Act_task (movedTaskId input) ''reordered'' db2))),
                 insertActivity env Act_task (movedTaskId input) ''reordered'' db2)))"
    using True
    unfolding reorderTasksInLane_def m option.case Let_def orderedIds_def[symmetric] rows_def[symmetric]
      reorder_tx_result guard case_prod_beta
    by (simp only: not_True_eq_False if_False not_not)
  show ?thesis
  proof (cases "SQLITE_MAX_VARIABLE_NUMBER < Suc (length orderedIds)")
    case big: True
    show ?thesis unfolding unfolded using True big by (simp only: if_True if_False sum.case not_not simp_thms)
  next
    case small: False
    show ?thesis unfolding unfolded Let_def using True small
      by (simp only: if_True if_False sum.case not_not simp_thms)
  qed
qed

lemma reorder_not_accepted:
  assumes "\<not> reorder_accepts env input db"
  shows "tasks (snd (reorderTasksInLane env input db)) = tasks db"
    and "projects (snd (reorderTasksInLane env input db)) = projects db"
proof -
  have "tasks (snd (reorderTasksInLane env input db)) = tasks db \<and>
        projects (snd (reorderTasksInLane env input db)) = projects db"
  proof (cases "find (\<lambda>t. task_id t = movedTaskId input) (tasks db)")
    case None
    then show ?thesis by (simp add: reorderTasksInLane_def)
  next
    case (Some moved)
    note eq = reorder_rejected_or_accepted[OF Some, of env]
    let ?ids = "array_from_set (filter (\<lambda>s. s \<noteq> []) (orderedTaskIds input))"
    let ?rows = "filter (\<lambda>t. task_id t \<in> set ?ids) (tasks db)"
    have n: "tasks (snd (now env db)) = tasks db" "projects (snd (now env db)) = projects db"
      by (simp_all add: now_def)
    consider (a) "movedTaskId input \<notin> set ?ids"
      | (b) "movedTaskId input \<in> set ?ids" "SQLITE_MAX_VARIABLE_NUMBER < length ?ids"
      | (c) "movedTaskId input \<in> set ?ids" "\<not> SQLITE_MAX_VARIABLE_NUMBER < length ?ids"
            "length ?rows \<noteq> length ?ids \<or>
             (\<exists>row \<in> set ?rows. task_id row \<noteq> movedTaskId input \<and> status row \<noteq> toStatus input)"
      | (d) "movedTaskId input \<in> set ?ids" "\<not> SQLITE_MAX_VARIABLE_NUMBER < length ?ids"
            "\<not> (length ?rows \<noteq> length ?ids \<or>
             (\<exists>row \<in> set ?rows. task_id row \<noteq> movedTaskId input \<and> status row \<noteq> toStatus input))"
            "SQLITE_MAX_VARIABLE_NUMBER < Suc (length ?ids)"
      | (e) "movedTaskId input \<in> set ?ids" "\<not> SQLITE_MAX_VARIABLE_NUMBER < length ?ids"
            "\<not> (length ?rows \<noteq> length ?ids \<or>
             (\<exists>row \<in> set ?rows. task_id row \<noteq> movedTaskId input \<and> status row \<noteq> toStatus input))"
            "\<not> SQLITE_MAX_VARIABLE_NUMBER < Suc (length ?ids)"
      by blast
    then show ?thesis
    proof cases
      case a
      then have "reorderTasksInLane env input db = (Inr None, db)" unfolding eq by (simp only: if_True if_False not_not simp_thms)
      then show ?thesis by simp
    next
      case b
      then have "reorderTasksInLane env input db = (Inl SqliteTooManyVariables, db)"
        unfolding eq by (simp only: if_True if_False not_not simp_thms)
      then show ?thesis by simp
    next
      case c
      then have "reorderTasksInLane env input db = (Inr None, db)"
        unfolding eq by (simp only: if_True if_False not_not simp_thms)
      then show ?thesis by simp
    next
      case d
      then have "reorderTasksInLane env input db = (Inl SqliteTooManyVariables, snd (now env db))"
        unfolding eq by (simp only: if_True if_False not_not simp_thms)
      then show ?thesis using n by simp
    next
      case e
      then have "reorderTasksInLane env input db =
        (let db3 = insertActivity env Act_task (movedTaskId input) ''reordered''
                    (reorder_tx_writes input moved ?ids (fst (now env db)) (snd (now env db)))
        in (Inr (Some (listTasks db3)), db3))"
        unfolding eq by (simp only: if_True if_False not_not simp_thms)
      then have "reorder_accepts env input db" by (simp add: reorder_accepts_def Let_def)
      then show ?thesis using assms by contradiction
    qed
  qed
  then show "tasks (snd (reorderTasksInLane env input db)) = tasks db"
    and "projects (snd (reorderTasksInLane env input db)) = projects db" by simp_all
qed

lemma reorder_accepted:
  assumes m: "find (\<lambda>t. task_id t = movedTaskId input) (tasks db) = Some moved"
    and acc: "reorder_accepts env input db"
  defines "orderedIds \<equiv> array_from_set (filter (\<lambda>s. s \<noteq> []) (orderedTaskIds input))"
  shows "snd (reorderTasksInLane env input db) =
           insertActivity env Act_task (movedTaskId input) ''reordered''
             (reorder_tx_writes input moved orderedIds (fst (now env db)) (snd (now env db)))"
    and "movedTaskId input \<in> set orderedIds"
    and "length (filter (\<lambda>t. task_id t \<in> set orderedIds) (tasks db)) = length orderedIds"
    and "\<And>t. t \<in> set (tasks db) \<Longrightarrow> task_id t \<in> set orderedIds \<Longrightarrow>
            task_id t = movedTaskId input \<or> status t = toStatus input"
    and "Suc (length orderedIds) \<le> SQLITE_MAX_VARIABLE_NUMBER"
    and "fst (reorderTasksInLane env input db) =
           Inr (Some (listTasks (snd (reorderTasksInLane env input db))))"
proof -
  let ?rows = "filter (\<lambda>t. task_id t \<in> set orderedIds) (tasks db)"
  let ?C = "movedTaskId input \<notin> set orderedIds \<or> SQLITE_MAX_VARIABLE_NUMBER < length orderedIds \<or>
         length ?rows \<noteq> length orderedIds \<or>
         (\<exists>row \<in> set ?rows. task_id row \<noteq> movedTaskId input \<and> status row \<noteq> toStatus input) \<or>
         SQLITE_MAX_VARIABLE_NUMBER < Suc (length orderedIds)"
  note eq = reorder_rejected_or_accepted[OF m, of env, folded orderedIds_def]
  have nc: "\<not> ?C"
  proof
    assume ?C
    then have "fst (reorderTasksInLane env input db) = Inr None \<or>
               fst (reorderTasksInLane env input db) = Inl SqliteTooManyVariables"
      unfolding eq by (auto simp: Let_def)
    then have "\<not> reorder_accepts env input db"
      unfolding reorder_accepts_def by auto
    then show False using acc by contradiction
  qed
  then have res: "reorderTasksInLane env input db =
       (let db3 = insertActivity env Act_task (movedTaskId input) ''reordered''
                    (reorder_tx_writes input moved orderedIds (fst (now env db)) (snd (now env db)))
        in (Inr (Some (listTasks db3)), db3))"
    unfolding eq by (simp only: de_Morgan_disj if_False simp_thms)
  then show "snd (reorderTasksInLane env input db) =
           insertActivity env Act_task (movedTaskId input) ''reordered''
             (reorder_tx_writes input moved orderedIds (fst (now env db)) (snd (now env db)))"
    by (simp add: Let_def)
  show "fst (reorderTasksInLane env input db) =
           Inr (Some (listTasks (snd (reorderTasksInLane env input db))))"
    using res by (simp add: Let_def)
  show "movedTaskId input \<in> set orderedIds" using nc by blast
  show "length ?rows = length orderedIds" using nc by blast
  show "\<And>t. t \<in> set (tasks db) \<Longrightarrow> task_id t \<in> set orderedIds \<Longrightarrow>
            task_id t = movedTaskId input \<or> status t = toStatus input"
    using nc by auto
  show "Suc (length orderedIds) \<le> SQLITE_MAX_VARIABLE_NUMBER" using nc by simp
qed

lemma TASK_STATUSES_all: "st \<in> set TASK_STATUSES"
  by (cases st) (simp_all add: TASK_STATUSES_def)

lemma lane_dense_cong: "lane st ts' = lane st ts \<Longrightarrow> lane_dense st ts' = lane_dense st ts"
  by (simp add: lane_dense_def)

lemma lane_denseD:
  assumes "lane_dense st ts"
  shows "order_index ` set (lane st ts) = {0..<int (length (lane st ts))}"
    and "distinct (map order_index (lane st ts))"
proof -
  let ?xs = "map order_index (lane st ts)"
  let ?n = "length (lane st ts)"
  have s: "sort ?xs = map int [0..<?n]" using assms by (simp add: lane_dense_def)
  have "set ?xs = set (sort ?xs)" by simp
  also have "\<dots> = int ` {0..<?n}" by (simp only: s set_map set_upt)
  also have "\<dots> = {0..<int ?n}" by (simp add: image_int_atLeastLessThan)
  finally show "order_index ` set (lane st ts) = {0..<int ?n}" by simp
  have "distinct (sort ?xs)" by (simp only: s) (simp add: distinct_map)
  then show "distinct ?xs" by simp
qed

lemma reorder_ids:
  assumes d: "distinct (map task_id (tasks db))"
  shows "map task_id (tasks (snd (reorderTasksInLane env input db))) = map task_id (tasks db)"
proof (cases "find (\<lambda>t. task_id t = movedTaskId input) (tasks db)")
  case None
  then show ?thesis by (simp add: reorderTasksInLane_def)
next
  case (Some moved)
  let ?ids = "array_from_set (filter (\<lambda>s. s \<noteq> []) (orderedTaskIds input))"
  let ?db1 = "snd (now env db)"
  have t1: "tasks ?db1 = tasks db" by (simp add: now_def)
  show ?thesis
  proof (cases "reorder_accepts env input db")
    case False
    then show ?thesis by (simp add: reorder_not_accepted)
  next
    case True
    note acc = reorder_accepted(1)[OF Some True] and mem = reorder_accepted(2)[OF Some True]
    from length_pos_if_in_set[OF mem] have ne: "?ids \<noteq> []" by simp
    have "tasks (snd (reorderTasksInLane env input db)) =
          tasks (reorder_tx_writes input moved ?ids (fst (now env db)) ?db1)"
      by (simp add: acc)
    then show ?thesis
      using d by (simp add: reorder_tx_tasks[OF ne] t1 Let_def renumber_lane_ids)
  qed
qed

lemma reorder_dense:
  assumes d: "distinct (map task_id (tasks db))" and dense: "lane_dense st (tasks db)"
  shows "lane_dense st (tasks (snd (reorderTasksInLane env input db)))"
proof (cases "find (\<lambda>t. task_id t = movedTaskId input) (tasks db)")
  case None
  then show ?thesis using dense by (simp add: reorderTasksInLane_def)
next
  case (Some moved)
  let ?ids = "array_from_set (filter (\<lambda>s. s \<noteq> []) (orderedTaskIds input))"
  let ?db1 = "snd (now env db)"
  let ?ts = "fst (now env db)"
  let ?mv = "movedTaskId input"
  let ?to = "toStatus input"
  let ?ts2 = "placed ?mv ?to ?ids ?ts (tasks db)"
  have t1: "tasks ?db1 = tasks db" by (simp add: now_def)
  have moved: "moved \<in> set (tasks db)" "task_id moved = ?mv"
    using find_SomeD[OF Some] by auto
  show ?thesis
  proof (cases "reorder_accepts env input db")
    case False
    then show ?thesis using dense by (simp add: reorder_not_accepted)
  next
    case True
    note acc = reorder_accepted(1)[OF Some True] and mem = reorder_accepted(2)[OF Some True]
      and len = reorder_accepted(3)[OF Some True] and valid = reorder_accepted(4)[OF Some True]
    from length_pos_if_in_set[OF mem] have ne: "?ids \<noteq> []" by simp
    have sub: "set ?ids \<subseteq> task_id ` set (tasks db)"
      using d _ len by (rule all_ids_exist) simp
    have d2: "distinct (map task_id ?ts2)" using d by simp
    have res: "tasks (snd (reorderTasksInLane env input db)) =
          (if status moved \<noteq> ?to then renumber_lane (status moved) ?ts2 else ?ts2)"
      using d by (simp add: acc reorder_tx_tasks[OF ne] t1 Let_def)
    have target: "lane_dense ?to ?ts2"
      using d _ sub by (rule placed_dense_target) simp
    consider (to) "st = ?to" | (src) "st \<noteq> ?to" "st = status moved"
      | (other) "st \<noteq> ?to" "st \<noteq> status moved" by blast
    then show ?thesis
    proof cases
      case to
      show ?thesis
      proof (cases "status moved = ?to")
        case True
        then show ?thesis using target to res by simp
      next
        case False
        then have "lane ?to (renumber_lane (status moved) ?ts2) = lane ?to ?ts2"
          using d2 by (intro renumber_lane_other) auto
        then show ?thesis using target to res False by (simp add: lane_dense_def)
      qed
    next
      case src
      then show ?thesis using renumber_lane_dense[OF d2, of "status moved"] res by simp
    next
      case other
      have "lane st ?ts2 = lane st (tasks db)"
        using d moved valid other by (rule placed_other_lane)
      moreover have "status moved \<noteq> ?to \<Longrightarrow>
          lane st (renumber_lane (status moved) ?ts2) = lane st ?ts2"
        using d2 other(2) by (rule renumber_lane_other)
      ultimately have "lane st (tasks (snd (reorderTasksInLane env input db))) = lane st (tasks db)"
        using res by simp
      then show ?thesis using dense by (simp add: lane_dense_def)
    qed
  qed
qed

lemma run_lane_ops_invariant:
  assumes "distinct (map task_id (tasks db))" and "\<forall>st. lane_dense st (tasks db)"
  shows "distinct (map task_id (tasks (run_lane_ops env ops db))) \<and>
         (\<forall>st. lane_dense st (tasks (run_lane_ops env ops db)))"
  using assms unfolding run_lane_ops_def
proof (induction ops arbitrary: db)
  case Nil
  then show ?case by simp
next
  case (Cons op ops)
  have "distinct (map task_id (tasks (apply_lane_op env op db))) \<and>
        (\<forall>st. lane_dense st (tasks (apply_lane_op env op db)))"
  proof (cases op)
    case (Reorder input)
    then show ?thesis
      using Cons.prems reorder_ids[of db env input] reorder_dense[of db _ env input]
      by (simp add: apply_lane_op_def)
  next
    case (Delete tid)
    then show ?thesis
      using Cons.prems deleteTask_ids[of db env tid] deleteTask_dense[of db _ env tid]
      by (simp add: apply_lane_op_def)
  qed
  then show ?case using Cons.IH by simp
qed

section \<open>createTask and updateTask, step by step\<close>

lemma map_forget_orderD:
  assumes "map forget_order ts' = map forget_order ts" and "\<And>t. f (forget_order t) = f t"
  shows "map f ts' = map f ts"
proof -
  have "map f ts' = map f (map forget_order ts')" by (simp add: comp_def assms(2))
  also have "\<dots> = map f (map forget_order ts)" by (simp only: assms(1))
  also have "\<dots> = map f ts" by (simp add: comp_def assms(2))
  finally show ?thesis .
qed

lemma set_order_index_forget:
  "map forget_order (tasks (set_order_index x i db)) = map forget_order (tasks db)"
  by (simp add: set_order_index_def update_where_def forget_order_def comp_def if_distrib cong: if_cong)

lemma set_order_index_rest:
  "projects (set_order_index x i db) = projects db"
  "content_entries (set_order_index x i db) = content_entries db"
  "activity (set_order_index x i db) = activity db"
  "clock_reads (set_order_index x i db) = clock_reads db"
  "uuid_draws (set_order_index x i db) = uuid_draws db"
  by (simp_all add: set_order_index_def)

lemma forEach_set_order_forget:
  "map forget_order (tasks (forEach_indexed (\<lambda>row index. set_order_index (g row) index) rs k db))
     = map forget_order (tasks db)"
  by (induction rs arbitrary: k db) (simp_all add: set_order_index_forget)

lemma forEach_set_order_rest:
  "projects (forEach_indexed (\<lambda>row index. set_order_index (g row) index) rs k db) = projects db"
  "content_entries (forEach_indexed (\<lambda>row index. set_order_index (g row) index) rs k db) = content_entries db"
  "activity (forEach_indexed (\<lambda>row index. set_order_index (g row) index) rs k db) = activity db"
  "clock_reads (forEach_indexed (\<lambda>row index. set_order_index (g row) index) rs k db) = clock_reads db"
  "uuid_draws (forEach_indexed (\<lambda>row index. set_order_index (g row) index) rs k db) = uuid_draws db"
  by (induction rs arbitrary: k db; simp add: set_order_index_rest)+

lemma normalize_lane_forget:
  "map forget_order (tasks (normalize_lane st d)) = map forget_order (tasks d)"
  by (simp add: normalize_lane_def forEach_set_order_forget)

lemma normalize_lane_rest:
  "projects (normalize_lane st d) = projects d"
  "content_entries (normalize_lane st d) = content_entries d"
  "activity (normalize_lane st d) = activity d"
  "clock_reads (normalize_lane st d) = clock_reads d"
  "uuid_draws (normalize_lane st d) = uuid_draws d"
  by (simp_all add: normalize_lane_def forEach_set_order_rest)

lemma normalizeTaskOrder_lanes: "normalizeTaskOrder db = fold normalize_lane TASK_STATUSES db"
proof -
  have "normalize_lane = (\<lambda>st d. forEach_indexed (\<lambda>row index. set_order_index (task_id row) index)
          (order_by normalize_le (filter (\<lambda>t. status t = st) (tasks d))) 0 d)"
    by (intro ext) (simp add: normalize_lane_def)
  then show ?thesis by (simp add: normalizeTaskOrder_def)
qed

lemma fold_normalize_lane_forget:
  "map forget_order (tasks (fold normalize_lane sts db)) = map forget_order (tasks db)"
  by (induction sts arbitrary: db) (simp_all add: normalize_lane_forget)

lemma fold_normalize_lane_rest:
  "projects (fold normalize_lane sts db) = projects db"
  "content_entries (fold normalize_lane sts db) = content_entries db"
  "activity (fold normalize_lane sts db) = activity db"
  "clock_reads (fold normalize_lane sts db) = clock_reads db"
  "uuid_draws (fold normalize_lane sts db) = uuid_draws db"
  by (induction sts arbitrary: db; simp add: normalize_lane_rest)+

lemma normalizeTaskOrder_forget:
  "map forget_order (tasks (normalizeTaskOrder db)) = map forget_order (tasks db)"
  by (simp add: normalizeTaskOrder_lanes fold_normalize_lane_forget)

lemma normalizeTaskOrder_rest:
  "projects (normalizeTaskOrder db) = projects db"
  "content_entries (normalizeTaskOrder db) = content_entries db"
  "activity (normalizeTaskOrder db) = activity db"
  "clock_reads (normalizeTaskOrder db) = clock_reads db"
  "uuid_draws (normalizeTaskOrder db) = uuid_draws db"
  by (simp_all add: normalizeTaskOrder_lanes fold_normalize_lane_rest)

text \<open>
  After normalizeTaskOrder every order value is an index of a lane, so it is below the number
  of tasks, and the next order value of every lane can be read.
\<close>

lemma forEach_set_order_rows:
  fixes g :: "'a \<Rightarrow> string"
  defines "out \<equiv> \<lambda>rs k d. tasks (forEach_indexed (\<lambda>row index. set_order_index (g row) index) rs k d)"
  shows "t \<in> set (out rs k d) \<Longrightarrow>
           (t \<in> set (tasks d) \<and> task_id t \<notin> g ` set rs) \<or>
           (int k \<le> order_index t \<and> order_index t < int (k + length rs))"
proof (induction rs arbitrary: k d)
  case Nil
  then show ?case by (simp add: out_def)
next
  case (Cons r rs)
  let ?d = "set_order_index (g r) k d"
  have t: "t \<in> set (out rs (Suc k) ?d)" using Cons.prems by (simp add: out_def)
  from Cons.IH[OF t] consider
    (old) "t \<in> set (tasks ?d)" "task_id t \<notin> g ` set rs"
    | (new) "int (Suc k) \<le> order_index t" "order_index t < int (Suc k + length rs)" by blast
  then show ?case
  proof cases
    case old
    then obtain t0 where t0: "t0 \<in> set (tasks d)"
      "t = (if task_id t0 = g r then t0\<lparr>order_index := int k\<rparr> else t0)"
      by (auto simp: set_order_index_def update_where_def)
    show ?thesis
    proof (cases "task_id t0 = g r")
      case True
      then have "order_index t = int k" using t0(2) by simp
      then show ?thesis by simp
    next
      case False
      then have "t = t0" using t0(2) by simp
      then show ?thesis using t0(1) False old(2) by auto
    qed
  next
    case new
    then show ?thesis by simp
  qed
qed

lemma normalize_lane_rows:
  assumes "t \<in> set (tasks (normalize_lane st d))"
  shows "(t \<in> set (tasks d) \<and> status t \<noteq> st) \<or>
         (0 \<le> order_index t \<and> order_index t < int (length (tasks d)))"
proof -
  let ?rs = "order_by normalize_le (filter (\<lambda>t. status t = st) (tasks d))"
  have len: "length ?rs \<le> length (tasks d)"
  proof -
    have "length ?rs = length (filter (\<lambda>t. status t = st) (tasks d))"
      by (metis mset_order_by size_mset)
    then show ?thesis by simp
  qed
  have "t \<in> set (tasks (forEach_indexed (\<lambda>row index. set_order_index (task_id row) index) ?rs 0 d))"
    using assms by (simp add: normalize_lane_def)
  from forEach_set_order_rows[OF this] consider
    (old) "t \<in> set (tasks d)" "task_id t \<notin> task_id ` set ?rs"
    | (new) "0 \<le> order_index t" "order_index t < int (length ?rs)" by auto
  then show ?thesis
  proof cases
    case old
    have "status t \<noteq> st"
    proof
      assume "status t = st"
      then have "t \<in> set ?rs" using old(1) by (simp add: set_order_by)
      then show False using old(2) by blast
    qed
    then show ?thesis using old(1) by simp
  next
    case new
    then show ?thesis using len by simp
  qed
qed

lemma fold_normalize_lane_rows:
  assumes "t \<in> set (tasks (fold normalize_lane sts d))"
  shows "(t \<in> set (tasks d) \<and> status t \<notin> set sts) \<or>
         (0 \<le> order_index t \<and> order_index t < int (length (tasks d)))"
  using assms
proof (induction sts arbitrary: d)
  case Nil
  then show ?case by simp
next
  case (Cons st sts)
  have len: "length (tasks (normalize_lane st d)) = length (tasks d)"
    by (rule map_eq_imp_length_eq) (rule normalize_lane_forget)
  have "t \<in> set (tasks (fold normalize_lane sts (normalize_lane st d)))"
    using Cons.prems by simp
  from Cons.IH[OF this] consider
    (old) "t \<in> set (tasks (normalize_lane st d))" "status t \<notin> set sts"
    | (new) "0 \<le> order_index t" "order_index t < int (length (tasks d))"
    using len by auto
  then show ?case
  proof cases
    case old
    then show ?thesis using normalize_lane_rows[OF old(1)] by auto
  next
    case new
    then show ?thesis by simp
  qed
qed

lemma normalizeTaskOrder_bounded:
  assumes "t \<in> set (tasks (normalizeTaskOrder db))"
  shows "0 \<le> order_index t \<and> order_index t < int (length (tasks db))"
  using fold_normalize_lane_rows[OF assms[unfolded normalizeTaskOrder_lanes]] TASK_STATUSES_all
  by auto




lemma insertActivity_rest [simp]:
  "content_entries (insertActivity env e i a db) = content_entries db"
  "clock_reads (insertActivity env e i a db) = Suc (clock_reads db)"
  "uuid_draws (insertActivity env e i a db) = Suc (uuid_draws db)"
  by (simp_all add: insertActivity_def createId_def now_def Let_def)

lemma ensureInboxProject_props:
  "fst (ensureInboxProject env db) = INBOX_PROJECT_ID"
  "projectExists (snd (ensureInboxProject env db)) INBOX_PROJECT_ID"
  "tasks (snd (ensureInboxProject env db)) = tasks db"
  "content_entries (snd (ensureInboxProject env db)) = content_entries db"
  "uuid_draws (snd (ensureInboxProject env db)) = uuid_draws db"
  "projectExists db p \<Longrightarrow> projectExists (snd (ensureInboxProject env db)) p"
  "clock_reads db \<le> clock_reads (snd (ensureInboxProject env db))"
  by (auto simp: ensureInboxProject_def projectExists_def now_def Let_def)

lemma getNextTaskOrder_tasks:
  "tasks d = tasks db \<Longrightarrow> getNextTaskOrder d st = getNextTaskOrder db st"
  by (simp add: getNextTaskOrder_def)

lemma getNextTaskOrder_error: "getNextTaskOrder db st = Inl e \<Longrightarrow> e = ErrOutOfRange"
  by (auto simp: getNextTaskOrder_def Let_def split: list.splits if_splits)

lemma createTask_cases:
  obtains (unreadable) db' where
      "createTask env input db = (Inl ErrOutOfRange, db')"
      "tasks db' = tasks db"
      "\<And>p. projectExists db p \<Longrightarrow> projectExists db' p"
      "getNextTaskOrder db (case ct_status input of None \<Rightarrow> Todo | Some s \<Rightarrow> s) = Inl ErrOutOfRange"
      "clock_reads db \<le> clock_reads db'"
  | (collision) db' where
      "createTask env input db = (Inl SqliteConstraintPrimaryKey, db')"
      "tasks db' = tasks db"
      "\<And>p. projectExists db p \<Longrightarrow> projectExists db' p"
      "''task-'' @ uuids env (uuid_draws db) \<in> task_id ` set (tasks db)"
      "clock_reads db \<le> clock_reads db'"
  | (created) item db' where
      "createTask env input db = (Inr item, db')"
      "tasks db' = tasks db @ [item]"
      "\<And>p. projectExists db p \<Longrightarrow> projectExists db' p"
      "projectExists db' (projectId item)"
      "clock_reads db \<le> clock_reads db'"
      "task_id item = ''task-'' @ uuids env (uuid_draws db)"
      "task_id item \<notin> task_id ` set (tasks db)"
      "title item = trim (ct_title input)"
      "details item = trimmed_or_null (ct_details input)"
      "status item = (case ct_status input of None \<Rightarrow> Todo | Some s \<Rightarrow> s)"
      "priority item = (case ct_priority input of None \<Rightarrow> Medium | Some p \<Rightarrow> p)"
      "dueDate item = ct_dueDate input"
      "scheduledAt item = ct_scheduledAt input"
      "source item = (case ct_source input of None \<Rightarrow> Mission_control | Some s \<Rightarrow> s)"
      "recurrence item = (case ct_recurrence input of None \<Rightarrow> Rec_none | Some r \<Rightarrow> r)"
      "projectId item =
         (let p = (case ct_projectId input of None \<Rightarrow> INBOX_PROJECT_ID | Some p \<Rightarrow> p)
          in if projectExists db p then p else INBOX_PROJECT_ID)"
      "getNextTaskOrder db (case ct_status input of None \<Rightarrow> Todo | Some s \<Rightarrow> s) = Inr (order_index item)"
proof -
  let ?db1 = "snd (now env db)"
  let ?pid0 = "case ct_projectId input of None \<Rightarrow> INBOX_PROJECT_ID | Some p \<Rightarrow> p"
  let ?st = "case ct_status input of None \<Rightarrow> Todo | Some s \<Rightarrow> s"
  let ?r = "if \<not> projectExists ?db1 ?pid0 then ensureInboxProject env ?db1 else (?pid0, ?db1)"
  let ?db2 = "snd ?r"
  let ?db3 = "?db2\<lparr>uuid_draws := Suc (uuid_draws db)\<rparr>"
  let ?tid = "''task-'' @ uuids env (uuid_draws db)"
  have pe1: "\<And>p. projectExists ?db1 p = projectExists db p"
    by (simp add: now_def projectExists_def)
  have t2: "tasks ?db2 = tasks db"
    by (simp add: ensureInboxProject_props now_def)
  have u2: "uuid_draws ?db2 = uuid_draws db"
    by (simp add: ensureInboxProject_props now_def)
  have c2: "clock_reads db \<le> clock_reads ?db2"
  proof -
    have "clock_reads db \<le> clock_reads ?db1" by (simp add: now_def)
    moreover have "clock_reads ?db1 \<le> clock_reads ?db2"
      by (simp add: ensureInboxProject_props)
    ultimately show ?thesis by (rule le_trans)
  qed
  have pe2: "\<And>p. projectExists db p \<Longrightarrow> projectExists ?db2 p"
    using pe1 by (simp add: ensureInboxProject_props)
  have pid: "fst ?r = (if projectExists db ?pid0 then ?pid0 else INBOX_PROJECT_ID)"
    using pe1 by (simp add: ensureInboxProject_props)
  have pex: "projectExists ?db2 (fst ?r)"
    using pe1 by (simp add: ensureInboxProject_props)
  have id3: "createId env ''task'' ?db2 = (?tid, ?db3)"
    by (simp add: createId_def u2)
  have gn: "getNextTaskOrder ?db3 ?st = getNextTaskOrder db ?st"
    by (rule getNextTaskOrder_tasks) (simp add: t2)
  have t3: "tasks ?db3 = tasks db" by (simp add: t2)
  have pe3: "\<And>p. projectExists db p \<Longrightarrow> projectExists ?db3 p"
    using pe2 by (simp add: projectExists_def)
  have c3: "clock_reads db \<le> clock_reads ?db3" using c2 by simp
  show ?thesis
  proof (cases "getNextTaskOrder db ?st")
    case (Inl e)
    then have e: "e = ErrOutOfRange" by (rule getNextTaskOrder_error)
    have "createTask env input db = (Inl ErrOutOfRange, ?db3)"
      unfolding createTask_def
      by (simp add: Let_def case_prod_beta id3 gn Inl e)
    then show ?thesis
      using t3 pe3 Inl[unfolded e] c3 by (rule unreadable)
  next
    case (Inr ord)
    show ?thesis
    proof (cases "\<exists>t \<in> set (tasks db). task_id t = ?tid")
      case True
      then have "createTask env input db = (Inl SqliteConstraintPrimaryKey, ?db3)"
        unfolding createTask_def
        by (simp add: Let_def case_prod_beta id3 t2 gn Inr)
      then show ?thesis
      proof (rule collision[of ?db3])
        show "tasks ?db3 = tasks db" by (rule t3)
        show "\<And>p. projectExists db p \<Longrightarrow> projectExists ?db3 p" by (rule pe3)
        show "?tid \<in> task_id ` set (tasks db)"
          using True by force
        show "clock_reads db \<le> clock_reads ?db3" by (rule c3)
      qed
    next
      case False
      then obtain item where
        res: "createTask env input db =
          (Inr item, insertActivity env Act_task ?tid ''created''
             (?db2\<lparr>uuid_draws := Suc (uuid_draws db), tasks := tasks db @ [item]\<rparr>))"
        and item: "item =
            \<lparr>task_id = ?tid,
             title = trim (ct_title input),
             details = trimmed_or_null (ct_details input),
             status = ?st,
             priority = (case ct_priority input of None \<Rightarrow> Medium | Some p \<Rightarrow> p),
             dueDate = ct_dueDate input,
             scheduledAt = ct_scheduledAt input,
             completedAt = (if ?st = Done then Some (fst (now env db)) else None),
             projectId = fst ?r,
             source = (case ct_source input of None \<Rightarrow> Mission_control | Some src \<Rightarrow> src),
             order_index = ord,
             recurrence = (case ct_recurrence input of None \<Rightarrow> Rec_none | Some r \<Rightarrow> r),
             createdAt = fst (now env db),
             updatedAt = fst (now env db)\<rparr>"
        unfolding createTask_def
        by (simp add: Let_def case_prod_beta id3 t2 gn Inr)
      show ?thesis
      proof (rule created[of item])
        show "createTask env input db = (Inr item, insertActivity env Act_task ?tid ''created''
             (?db2\<lparr>uuid_draws := Suc (uuid_draws db), tasks := tasks db @ [item]\<rparr>))"
          by (rule res)
        show "\<And>p. projectExists db p \<Longrightarrow> projectExists
             (insertActivity env Act_task ?tid ''created''
             (?db2\<lparr>uuid_draws := Suc (uuid_draws db), tasks := tasks db @ [item]\<rparr>)) p"
          using pe2 by (simp add: projectExists_def)
        show "projectExists (insertActivity env Act_task ?tid ''created''
             (?db2\<lparr>uuid_draws := Suc (uuid_draws db), tasks := tasks db @ [item]\<rparr>)) (projectId item)"
          using pex by (simp add: projectExists_def item)
        show "projectId item = (let p = ?pid0 in if projectExists db p then p else INBOX_PROJECT_ID)"
          using pid by (simp add: item Let_def)
        show "clock_reads db \<le> clock_reads (insertActivity env Act_task ?tid ''created''
             (?db2\<lparr>uuid_draws := Suc (uuid_draws db), tasks := tasks db @ [item]\<rparr>))"
          using c2 by simp
        show "getNextTaskOrder db ?st = Inr (order_index item)" using Inr by (simp add: item)
      qed (use False in \<open>auto simp: item\<close>)
    qed
  qed
qed

lemma write_task_forget:
  "map task_id (tasks (write_task tid item db)) = map task_id (tasks db)"
  unfolding write_task_def update_where_def by (simp add: comp_def if_distrib[of task_id])

lemma write_task_rows:
  assumes "t \<in> set (tasks (write_task tid item db))"
  shows "task_id t = tid \<Longrightarrow>
           completedAt t = completedAt item \<and> status t = status item \<and> projectId t = projectId item"
    and "task_id t \<noteq> tid \<Longrightarrow> t \<in> set (tasks db)"
proof -
  obtain t0 where t0: "t0 \<in> set (tasks db)"
    "t = (if task_id t0 = tid then
            t0\<lparr>title := title item, details := details item, status := status item,
                   priority := priority item, dueDate := dueDate item,
                   scheduledAt := scheduledAt item, completedAt := completedAt item,
                   projectId := projectId item, order_index := order_index item,
                   recurrence := recurrence item, updatedAt := updatedAt item\<rparr>
          else t0)"
    using assms unfolding write_task_def update_where_def by auto
  show "task_id t = tid \<Longrightarrow>
           completedAt t = completedAt item \<and> status t = status item \<and> projectId t = projectId item"
    using t0(2) by (cases "task_id t0 = tid") simp_all
  show "task_id t \<noteq> tid \<Longrightarrow> t \<in> set (tasks db)"
    using t0 by (cases "task_id t0 = tid") simp_all
qed

lemma write_task_rest:
  "projects (write_task tid item db) = projects db"
  "uuid_draws (write_task tid item db) = uuid_draws db"
  "clock_reads (write_task tid item db) = clock_reads db"
  by (simp_all add: write_task_def)

lemma forget_order_fields [simp]:
  "task_id (forget_order t) = task_id t"
  "status (forget_order t) = status t"
  "completedAt (forget_order t) = completedAt t"
  "projectId (forget_order t) = projectId t"
  by (simp_all add: forget_order_def)

lemma same_up_to_order_rows:
  assumes "map forget_order ts' = map forget_order ts" and "t' \<in> set ts'"
  shows "\<exists>t \<in> set ts. forget_order t' = forget_order t"
proof -
  have "forget_order t' \<in> set (map forget_order ts')" using assms(2) by simp
  then have "forget_order t' \<in> set (map forget_order ts)" by (simp only: assms(1))
  then show ?thesis by auto
qed

lemma updateTask_order_error:
  assumes "find (\<lambda>t. task_id t = tid) (tasks db) = Some cur"
    and "tp_projectId patch \<noteq> Null"
    and "next_order_read patch cur db = Inl e"
  shows "updateTask env tid patch db = (Inl e, db)"
  using assms(2,3) unfolding updateTask_def assms(1) option.case Let_def next_order_read_def
  by (simp only: if_False sum.case)

lemma updateTask_found:
  assumes found: "find (\<lambda>t. task_id t = tid) (tasks db) = Some cur"
    and nn: "tp_projectId patch \<noteq> Null"
    and ord: "next_order_read patch cur db = Inr nextOrder"
  obtains item db5 where
    "order_index item = nextOrder"
    "status item = (case tp_status patch of Some s \<Rightarrow> s | None \<Rightarrow> status cur)"
    "recurrence item = (case tp_recurrence patch of Some r \<Rightarrow> r | None \<Rightarrow> recurrence cur)"
    "title item = (case tp_title patch of Some t \<Rightarrow> trim t | None \<Rightarrow> title cur)"
    "details item = patched (tp_details patch) (details cur)"
    "priority item = (case tp_priority patch of Some p \<Rightarrow> p | None \<Rightarrow> priority cur)"
    "dueDate item = patched (tp_dueDate patch) (dueDate cur)"
    "scheduledAt item = patched (tp_scheduledAt patch) (scheduledAt cur)"
    "source item = source cur"
    "projectId item =
       (case tp_projectId patch of
          Value p \<Rightarrow> if projectExists db p then p else INBOX_PROJECT_ID
        | _ \<Rightarrow> projectId cur)"
    "\<exists>k. clock_reads db \<le> k \<and> k < clock_reads db5 \<and>
         completedAt item = (if status item = Done then Some (clock env k) else None)"
    "map task_id (tasks db5) = map task_id (tasks db)"
    "\<And>t. t \<in> set (tasks db5) \<Longrightarrow> task_id t = tid \<Longrightarrow>
         completedAt t = completedAt item \<and> status t = status item \<and> projectId t = projectId item"
    "\<And>t. t \<in> set (tasks db5) \<Longrightarrow> task_id t \<noteq> tid \<Longrightarrow>
         \<exists>t0 \<in> set (tasks db). forget_order t = forget_order t0"
    "\<And>p. projectExists db p \<Longrightarrow> projectExists db5 p"
    "tp_projectId patch \<noteq> Omitted \<Longrightarrow> projectExists db5 (projectId item)"
    "uuid_draws db5 = uuid_draws db"
    "status cur \<noteq> status item \<Longrightarrow>
       \<forall>t \<in> set (tasks db5). 0 \<le> order_index t \<and> order_index t < int (length (tasks db))"
    "updateTask env tid patch db =
       (if status cur \<noteq> Done \<and> status item = Done \<and> recurrence item \<noteq> Rec_none then
          (case spawn_next env item db5 of
             (Inl e, db6) \<Rightarrow> (Inl e, db6)
           | (Inr spawned, db6) \<Rightarrow> (Inr (Some item), insertActivity env Act_task tid ''updated'' db6))
        else (Inr (Some item), insertActivity env Act_task tid ''updated'' db5))"
proof -
  define nextStatus where "nextStatus = (case tp_status patch of Some s \<Rightarrow> s | None \<Rightarrow> status cur)"
  define nextRecurrence where
    "nextRecurrence = (case tp_recurrence patch of Some r \<Rightarrow> r | None \<Rightarrow> recurrence cur)"
  have ord': "(case tp_order patch of
                 Some n \<Rightarrow> Inr (max 0 (math_trunc n))
               | None \<Rightarrow>
                   if nextStatus \<noteq> status cur then getNextTaskOrder db nextStatus
                   else Inr (order_index cur)) = Inr nextOrder"
    using ord by (simp only: next_order_read_def nextStatus_def)
  define r1 where
    "r1 = (case tp_projectId patch of
             Value p \<Rightarrow> (if projectExists db p then (p, db) else ensureInboxProject env db)
           | _ \<Rightarrow> (projectId cur, db))"
  define r2 where "r2 = (if nextStatus = Done then now env (snd r1) else ([], snd r1))"
  define r3 where "r3 = now env (snd r2)"
  define item where
    "item = cur\<lparr>
        title := (case tp_title patch of Some t \<Rightarrow> trim t | None \<Rightarrow> title cur),
        details := patched (tp_details patch) (details cur),
        status := nextStatus,
        priority := (case tp_priority patch of Some p \<Rightarrow> p | None \<Rightarrow> priority cur),
        dueDate := patched (tp_dueDate patch) (dueDate cur),
        scheduledAt := patched (tp_scheduledAt patch) (scheduledAt cur),
        completedAt := (if nextStatus = Done then Some (fst r2) else None),
        projectId := fst r1,
        order_index := nextOrder,
        recurrence := nextRecurrence,
        updatedAt := fst r3\<rparr>"
  define db4 where "db4 = write_task tid item (snd r3)"
  define db5 where "db5 = (if status cur \<noteq> status item then normalizeTaskOrder db4 else db4)"
  have r1_tasks: "tasks (snd r1) = tasks db"
    by (simp add: r1_def ensureInboxProject_props split: nullable.splits)
  have r1_uuid: "uuid_draws (snd r1) = uuid_draws db"
    by (simp add: r1_def ensureInboxProject_props split: nullable.splits)
  have r1_clock: "clock_reads db \<le> clock_reads (snd r1)"
    by (simp add: r1_def ensureInboxProject_props split: nullable.splits)
  have r1_proj: "\<And>p. projectExists db p \<Longrightarrow> projectExists (snd r1) p"
    by (simp add: r1_def ensureInboxProject_props split: nullable.splits)
  have r1_fst: "fst r1 = (case tp_projectId patch of
          Value p \<Rightarrow> if projectExists db p then p else INBOX_PROJECT_ID
        | _ \<Rightarrow> projectId cur)"
    by (simp add: r1_def ensureInboxProject_props split: nullable.splits)
  have r1_ex: "tp_projectId patch \<noteq> Omitted \<Longrightarrow> projectExists (snd r1) (fst r1)"
    using nn by (simp add: r1_def ensureInboxProject_props split: nullable.splits)
  have r3_tasks: "tasks (snd r3) = tasks db"
    by (simp add: r3_def r2_def now_def r1_tasks)
  have r3_proj: "projects (snd r3) = projects (snd r1)"
    by (simp add: r3_def r2_def now_def)
  have r3_uuid: "uuid_draws (snd r3) = uuid_draws db"
    by (simp add: r3_def r2_def now_def r1_uuid)
  have r3_clock: "clock_reads (snd r3) = clock_reads (snd r1) + (if nextStatus = Done then 2 else 1)"
    by (simp add: r3_def r2_def now_def)
  have r2_fst: "nextStatus = Done \<Longrightarrow> fst r2 = clock env (clock_reads (snd r1))"
    by (simp add: r2_def now_def)
  have db5_ids: "map task_id (tasks db5) = map task_id (tasks db)"
  proof -
    have "map task_id (tasks db4) = map task_id (tasks db)"
      by (simp add: db4_def write_task_forget r3_tasks)
    moreover have "map task_id (tasks (normalizeTaskOrder db4)) = map task_id (tasks db4)"
      by (rule map_forget_orderD[OF normalizeTaskOrder_forget]) simp
    ultimately show ?thesis by (simp add: db5_def)
  qed
  have db5_forget: "map forget_order (tasks db5) = map forget_order (tasks db4)"
    by (simp add: db5_def normalizeTaskOrder_forget)
  have db5_proj: "projects db5 = projects (snd r1)"
    by (simp add: db5_def db4_def normalizeTaskOrder_rest write_task_rest r3_proj)
  have db5_clock: "clock_reads db5 = clock_reads (snd r3)"
    by (simp add: db5_def db4_def normalizeTaskOrder_rest write_task_rest)
  have db5_uuid: "uuid_draws db5 = uuid_draws db"
    by (simp add: db5_def db4_def normalizeTaskOrder_rest write_task_rest r3_uuid)
  have res: "updateTask env tid patch db =
       (if status cur \<noteq> Done \<and> status item = Done \<and> recurrence item \<noteq> Rec_none then
          (case spawn_next env item db5 of
             (Inl e, db6) \<Rightarrow> (Inl e, db6)
           | (Inr spawned, db6) \<Rightarrow> (Inr (Some item), insertActivity env Act_task tid ''updated'' db6))
        else (Inr (Some item), insertActivity env Act_task tid ''updated'' db5))"
    unfolding updateTask_def found option.case Let_def case_prod_beta
    using nn
    by (simp only: if_False nextStatus_def[symmetric] nextRecurrence_def[symmetric]
          ord' sum.case r1_def[symmetric] r2_def[symmetric] r3_def[symmetric]
          item_def[symmetric] db4_def[symmetric] db5_def[symmetric])
  show ?thesis
  proof (rule that[of item db5])
    show "\<exists>k. clock_reads db \<le> k \<and> k < clock_reads db5 \<and>
         completedAt item = (if status item = Done then Some (clock env k) else None)"
      using r1_clock r2_fst
      by (intro exI[of _ "clock_reads (snd r1)"]) (simp add: item_def db5_clock r3_clock)
    show "map task_id (tasks db5) = map task_id (tasks db)" by (rule db5_ids)
    show "\<And>p. projectExists db p \<Longrightarrow> projectExists db5 p"
      using r1_proj by (simp add: projectExists_def db5_proj)
    show "tp_projectId patch \<noteq> Omitted \<Longrightarrow> projectExists db5 (projectId item)"
      using r1_ex by (simp add: projectExists_def db5_proj item_def)
    show "uuid_draws db5 = uuid_draws db" by (rule db5_uuid)
    show "status cur \<noteq> status item \<Longrightarrow>
       \<forall>t \<in> set (tasks db5). 0 \<le> order_index t \<and> order_index t < int (length (tasks db))"
    proof
      fix t assume ch: "status cur \<noteq> status item" and t: "t \<in> set (tasks db5)"
      have "map task_id (tasks db4) = map task_id (tasks db)"
        by (simp add: db4_def write_task_forget r3_tasks)
      then have l4: "length (tasks db4) = length (tasks db)" by (rule map_eq_imp_length_eq)
      have "t \<in> set (tasks (normalizeTaskOrder db4))" using t ch by (simp add: db5_def)
      from normalizeTaskOrder_bounded[OF this]
      show "0 \<le> order_index t \<and> order_index t < int (length (tasks db))" by (simp only: l4)
    qed
    show "updateTask env tid patch db =
       (if status cur \<noteq> Done \<and> status item = Done \<and> recurrence item \<noteq> Rec_none then
          (case spawn_next env item db5 of
             (Inl e, db6) \<Rightarrow> (Inl e, db6)
           | (Inr spawned, db6) \<Rightarrow> (Inr (Some item), insertActivity env Act_task tid ''updated'' db6))
        else (Inr (Some item), insertActivity env Act_task tid ''updated'' db5))"
      by (rule res)
  next
    fix t assume t: "t \<in> set (tasks db5)"
    then obtain t4 where t4: "t4 \<in> set (tasks db4)" "forget_order t = forget_order t4"
      using same_up_to_order_rows[OF db5_forget] by blast
    have ids: "task_id t4 = task_id t" "completedAt t4 = completedAt t" "status t4 = status t"
      "projectId t4 = projectId t"
      using arg_cong[OF t4(2), of task_id] arg_cong[OF t4(2), of completedAt]
        arg_cong[OF t4(2), of status] arg_cong[OF t4(2), of projectId] by simp_all
    show "task_id t = tid \<Longrightarrow>
         completedAt t = completedAt item \<and> status t = status item \<and> projectId t = projectId item"
      using write_task_rows(1)[OF t4(1)[unfolded db4_def]] ids by simp
    show "task_id t \<noteq> tid \<Longrightarrow> \<exists>t0 \<in> set (tasks db). forget_order t = forget_order t0"
      using write_task_rows(2)[OF t4(1)[unfolded db4_def]] ids t4(2) r3_tasks by auto
  qed (simp_all add: item_def nextStatus_def nextRecurrence_def r1_fst)
qed

lemma updateTask_not_found:
  "find (\<lambda>t. task_id t = tid) (tasks db) = None \<Longrightarrow> updateTask env tid patch db = (Inr None, db)"
  by (simp add: updateTask_def)

lemma updateTask_null_project:
  "tp_projectId patch = Null \<Longrightarrow> updateTask env tid patch db = (Inr None, db)"
  by (simp add: updateTask_def split: option.splits)

lemma spawn_next_cases:
  obtains (raised) e where "spawn_next env item db = (Inl e, db)"
  | (called) due sched where
      "addRecurrenceDate env (dueDate item) (recurrence item) = Inr due"
      "addRecurrenceDate env (scheduledAt item) (recurrence item) = Inr sched"
      "spawn_next env item db =
         createTask env
           \<lparr>ct_title = title item, ct_details = details item,
            ct_status = Some Todo, ct_priority = Some (priority item),
            ct_dueDate = due, ct_scheduledAt = sched,
            ct_projectId = Some (projectId item),
            ct_source = Some (source item),
            ct_recurrence = Some (recurrence item)\<rparr> db"
proof (cases "addRecurrenceDate env (dueDate item) (recurrence item)")
  case (Inl e)
  then have "spawn_next env item db = (Inl e, db)" by (simp add: spawn_next_def)
  then show ?thesis by (rule raised)
next
  case due: (Inr due)
  show ?thesis
  proof (cases "addRecurrenceDate env (scheduledAt item) (recurrence item)")
    case (Inl e)
    then have "spawn_next env item db = (Inl e, db)" using due by (simp add: spawn_next_def)
    then show ?thesis by (rule raised)
  next
    case (Inr sched)
    show ?thesis
      by (rule called[OF due Inr]) (simp add: spawn_next_def due Inr)
  qed
qed

text \<open>What spawn_next leaves in the store, whatever it returns.\<close>

lemma spawn_next_store:
  assumes "spawn_next env item db = (r, db')"
  shows "(\<forall>p. projectExists db p \<longrightarrow> projectExists db' p) \<and>
         clock_reads db \<le> clock_reads db' \<and>
         (case r of
            Inl e \<Rightarrow> tasks db' = tasks db
          | Inr n \<Rightarrow> tasks db' = tasks db @ [n] \<and> projectExists db' (projectId n) \<and>
                     task_id n \<notin> task_id ` set (tasks db))"
proof (cases rule: spawn_next_cases[of env item db])
  case (raised e)
  then show ?thesis using assms by auto
next
  case (called due sched)
  let ?input = "\<lparr>ct_title = title item, ct_details = details item,
            ct_status = Some Todo, ct_priority = Some (priority item),
            ct_dueDate = due, ct_scheduledAt = sched,
            ct_projectId = Some (projectId item),
            ct_source = Some (source item),
            ct_recurrence = Some (recurrence item)\<rparr>"
  have eq: "createTask env ?input db = (r, db')" using called(3) assms by simp
  show ?thesis
  proof (cases rule: createTask_cases[of env ?input db])
    case (unreadable d)
    then show ?thesis using eq by auto
  next
    case (collision d)
    then show ?thesis using eq by auto
  next
    case (created n d)
    then have "r = Inr n" "db' = d" using eq by auto
    then show ?thesis using created(2,3,4,5,7) by auto
  qed
qed

lemma addRecurrenceDate_valid:
  assumes "D \<noteq> []" and "r \<noteq> Rec_none" and "date_parse env D = Some t"
    and "date_plus_days env t (if r = Daily then 1 else 7) = Some t'"
  shows "addRecurrenceDate env (Some D) r = Inr (Some (date_toISOString env t'))"
  using assms by (cases r) (simp_all add: addRecurrenceDate_def)







text \<open>A call that returns a task has found the row and has read an order value.\<close>

lemma updateTask_returned:
  assumes "updateTask env tid patch db = (Inr (Some item), db')"
  obtains cur ord where
    "find (\<lambda>t. task_id t = tid) (tasks db) = Some cur"
    "tp_projectId patch \<noteq> Null"
    "next_order_read patch cur db = Inr ord"
proof (cases "find (\<lambda>t. task_id t = tid) (tasks db)")
  case None
  then show ?thesis using assms by (simp add: updateTask_not_found)
next
  case (Some cur)
  have nn: "tp_projectId patch \<noteq> Null"
    using assms updateTask_null_project[of patch env tid db] by auto
  show ?thesis
  proof (cases "next_order_read patch cur db")
    case (Inl e)
    then show ?thesis using assms updateTask_order_error[OF Some nn Inl, of env] by simp
  next
    case (Inr ord)
    show ?thesis by (rule that[OF Some nn Inr])
  qed
qed


lemmas ex_defs = ex_store_def ex_task_def ex_env_def ex_inbox_def ex_orion_def

section \<open>Projects of tasks, operation by operation\<close>

lemma refs_ok_step:
  assumes "refs_ok db"
    and "\<And>t'. t' \<in> set (tasks db') \<Longrightarrow> \<exists>t \<in> set (tasks db). projectId t' = projectId t"
    and "\<And>p. projectExists db p \<Longrightarrow> projectExists db' p"
  shows "refs_ok db'"
  unfolding refs_ok_def
proof
  fix t' assume "t' \<in> set (tasks db')"
  then obtain t where "t \<in> set (tasks db)" "projectId t' = projectId t" using assms(2) by blast
  then show "projectExists db' (projectId t')" using assms(1,3) by (simp add: refs_ok_def)
qed

lemma projectExists_insertActivity [simp]:
  "projectExists (insertActivity env e i a db) p = projectExists db p"
  by (simp add: projectExists_def)

lemma refs_ok_insertActivity [simp]: "refs_ok (insertActivity env e i a db) = refs_ok db"
  by (simp add: refs_ok_def)

lemma same_projectIds:
  assumes "map projectId ts' = map projectId ts" and "t' \<in> set ts'"
  shows "\<exists>t \<in> set ts. projectId t' = projectId t"
proof -
  have "projectId t' \<in> set (map projectId ts')" using assms(2) by simp
  then have "projectId t' \<in> set (map projectId ts)" by (simp only: assms(1))
  then show ?thesis by auto
qed

lemma projectExists_ids: "projectExists db p \<longleftrightarrow> p \<in> set (map project_id (projects db))"
  by (auto simp: projectExists_def)

lemma createProject_store:
  "tasks (snd (createProject env input db)) = tasks db"
  "projectExists db p \<Longrightarrow> projectExists (snd (createProject env input db)) p"
  by (simp_all add: createProject_def Let_def case_prod_beta now_def createId_def projectExists_def)

lemma updateProject_store:
  "tasks (snd (updateProject env pid patch db)) = tasks db"
  "projectExists (snd (updateProject env pid patch db)) p = projectExists db p"
proof -
  show "tasks (snd (updateProject env pid patch db)) = tasks db"
    by (simp add: updateProject_def Let_def case_prod_beta now_def split: option.splits)
  show "projectExists (snd (updateProject env pid patch db)) p = projectExists db p"
  proof (cases "find (\<lambda>q. project_id q = pid) (projects db)")
    case None
    then show ?thesis by (simp add: updateProject_def)
  next
    case (Some current)
    have "map project_id (projects (snd (updateProject env pid patch db))) = map project_id (projects db)"
      using Some
      by (simp add: updateProject_def Let_def case_prod_beta now_def update_where_def comp_def
            if_distrib[of project_id])
    then show ?thesis by (simp only: projectExists_ids)
  qed
qed

lemma deleteProject_inbox: "deleteProject env INBOX_PROJECT_ID db = (False, db)"
  by (simp add: deleteProject_def)

lemma deleteProject_missing: "\<not> projectExists db pid \<Longrightarrow> deleteProject env pid db = (False, db)"
  by (simp add: deleteProject_def)

lemma deleteProject_existing:
  assumes "pid \<noteq> INBOX_PROJECT_ID" and "projectExists db pid"
  shows "fst (deleteProject env pid db)"
    and "\<not> projectExists (snd (deleteProject env pid db)) pid"
    and "projectExists (snd (deleteProject env pid db)) INBOX_PROJECT_ID"
    and "map task_id (tasks (snd (deleteProject env pid db))) = map task_id (tasks db)"
    and "map projectId (tasks (snd (deleteProject env pid db))) =
           map (\<lambda>t. if projectId t = pid then INBOX_PROJECT_ID else projectId t) (tasks db)"
    and "\<And>p. p \<noteq> pid \<Longrightarrow> projectExists db p \<Longrightarrow> projectExists (snd (deleteProject env pid db)) p"
proof -
  let ?db1 = "snd (ensureInboxProject env db)"
  have eq: "deleteProject env pid db =
     (True, insertActivity env Act_project pid ''deleted''
        (?db1\<lparr>tasks := update_where (\<lambda>t. projectId t = pid)
                     (\<lambda>t. t\<lparr>projectId := INBOX_PROJECT_ID\<rparr>) (tasks ?db1),
              content_entries := update_where
                     (\<lambda>e. parentType e = Parent_project \<and> parentId e = pid)
                     (\<lambda>e. e\<lparr>parentId := INBOX_PROJECT_ID\<rparr>) (content_entries ?db1),
              projects := filter (\<lambda>p. project_id p \<noteq> pid) (projects ?db1)\<rparr>))"
    using assms by (simp add: deleteProject_def Let_def case_prod_beta)
  have t1: "tasks ?db1 = tasks db" by (simp add: ensureInboxProject_props)
  show "fst (deleteProject env pid db)" by (simp add: eq)
  show "\<not> projectExists (snd (deleteProject env pid db)) pid"
    by (simp add: eq projectExists_def)
  have "projectExists ?db1 INBOX_PROJECT_ID" by (rule ensureInboxProject_props)
  then show "projectExists (snd (deleteProject env pid db)) INBOX_PROJECT_ID"
    using assms(1) by (auto simp: eq projectExists_def)
  show "map task_id (tasks (snd (deleteProject env pid db))) = map task_id (tasks db)"
    by (simp add: eq t1 update_where_def comp_def if_distrib[of task_id])
  show "map projectId (tasks (snd (deleteProject env pid db))) =
           map (\<lambda>t. if projectId t = pid then INBOX_PROJECT_ID else projectId t) (tasks db)"
    by (simp add: eq t1 update_where_def comp_def if_distrib[of projectId])
  fix p assume "p \<noteq> pid" "projectExists db p"
  then have "projectExists ?db1 p" by (simp add: ensureInboxProject_props)
  then show "projectExists (snd (deleteProject env pid db)) p"
    using \<open>p \<noteq> pid\<close> by (auto simp: eq projectExists_def)
qed

lemma deleteProject_refs:
  assumes "refs_ok db"
  shows "refs_ok (snd (deleteProject env pid db))"
proof (cases "pid \<noteq> INBOX_PROJECT_ID \<and> projectExists db pid")
  case False
  then show ?thesis using assms deleteProject_inbox deleteProject_missing by (metis snd_conv)
next
  case True
  note d = deleteProject_existing[OF conjunct1[OF True] conjunct2[OF True], where env = env]
  show ?thesis
    unfolding refs_ok_def
  proof
    fix t' assume t': "t' \<in> set (tasks (snd (deleteProject env pid db)))"
    then have "projectId t' \<in> set (map projectId (tasks (snd (deleteProject env pid db))))"
      by simp
    then have "projectId t' \<in> set (map (\<lambda>t. if projectId t = pid then INBOX_PROJECT_ID else projectId t) (tasks db))"
      using d(5) by simp
    then obtain t where t: "t \<in> set (tasks db)"
      "projectId t' = (if projectId t = pid then INBOX_PROJECT_ID else projectId t)"
      by auto
    show "projectExists (snd (deleteProject env pid db)) (projectId t')"
    proof (cases "projectId t = pid")
      case True
      then show ?thesis using t(2) d(3) by simp
    next
      case False
      then have "projectExists db (projectId t)" using assms t(1) by (simp add: refs_ok_def)
      then show ?thesis using d(6)[of "projectId t"] False t(2) by simp
    qed
  qed
qed

text \<open>The lane operations write status, order and time stamp only.\<close>

lemma update_where_keeps:
  "(\<And>t. g (f t) = g t) \<Longrightarrow> map g (update_where P f ts) = map g ts"
  by (simp add: update_where_def comp_def if_distrib[of g])

lemma forEach_update_keeps:
  assumes "\<And>i t. g (upd i t) = g t"
  shows "map g (tasks (forEach_indexed
           (\<lambda>x i d. d\<lparr>tasks := update_where (\<lambda>t. task_id t = h x) (upd i) (tasks d)\<rparr>) xs k db))
         = map g (tasks db)"
    and "projects (forEach_indexed
           (\<lambda>x i d. d\<lparr>tasks := update_where (\<lambda>t. task_id t = h x) (upd i) (tasks d)\<rparr>) xs k db)
         = projects db"
  by (induction xs arbitrary: k db; simp add: update_where_keeps assms)+

lemma forEach_set_order_projectIds:
  "map projectId (tasks (forEach_indexed (\<lambda>row index. set_order_index (g row) index) rs k db))
     = map projectId (tasks db)"
  by (rule map_forget_orderD[OF forEach_set_order_forget]) simp

lemma reorder_tx_projects:
  "map projectId (tasks (reorder_tx_writes input moved ids ts db)) = map projectId (tasks db)"
  "projects (reorder_tx_writes input moved ids ts db) = projects db"
proof -
  let ?db1 = "db\<lparr>tasks := update_where (\<lambda>t. task_id t = movedTaskId input)
                    (\<lambda>t. t\<lparr>status := toStatus input, updatedAt := ts\<rparr>) (tasks db)\<rparr>"
  have p1: "map projectId (tasks ?db1) = map projectId (tasks db)"
    by (simp add: update_where_keeps)
  have step: "\<And>xs. map projectId (tasks (forEach_indexed
                  (\<lambda>taskId index d. d\<lparr>tasks := update_where (\<lambda>t. task_id t = taskId)
                       (\<lambda>t. t\<lparr>status := toStatus input, order_index := int index, updatedAt := ts\<rparr>)
                       (tasks d)\<rparr>) xs 0 ?db1)) = map projectId (tasks ?db1)"
    by (rule forEach_update_keeps(1)[where h = "\<lambda>x. x"]) simp
  have step2: "\<And>xs. projects (forEach_indexed
                  (\<lambda>taskId index d. d\<lparr>tasks := update_where (\<lambda>t. task_id t = taskId)
                       (\<lambda>t. t\<lparr>status := toStatus input, order_index := int index, updatedAt := ts\<rparr>)
                       (tasks d)\<rparr>) xs 0 ?db1) = projects ?db1"
    by (rule forEach_update_keeps(2)[where h = "\<lambda>x. x" and g = projectId]) simp
  show "map projectId (tasks (reorder_tx_writes input moved ids ts db)) = map projectId (tasks db)"
    unfolding reorder_tx_writes_def Let_def
    by (simp only: forEach_set_order_projectIds step p1 if_distrib[of tasks]
          if_distrib[of "map projectId"] if_cancel)
  show "projects (reorder_tx_writes input moved ids ts db) = projects db"
    unfolding reorder_tx_writes_def Let_def
    by (simp only: forEach_set_order_rest step2 if_distrib[of projects] if_cancel) simp
qed

lemma reorder_projects:
  "map projectId (tasks (snd (reorderTasksInLane env input db))) = map projectId (tasks db)"
  "projects (snd (reorderTasksInLane env input db)) = projects db"
proof -
  have n: "tasks (snd (now env db)) = tasks db" "projects (snd (now env db)) = projects db"
    by (simp_all add: now_def)
  have "map projectId (tasks (snd (reorderTasksInLane env input db))) = map projectId (tasks db) \<and>
        projects (snd (reorderTasksInLane env input db)) = projects db"
  proof (cases "reorder_accepts env input db")
    case False
    then show ?thesis by (simp add: reorder_not_accepted)
  next
    case True
    show ?thesis
    proof (cases "find (\<lambda>t. task_id t = movedTaskId input) (tasks db)")
      case None
      then show ?thesis by (simp add: reorderTasksInLane_def)
    next
      case (Some moved)
      show ?thesis
        by (simp add: reorder_accepted(1)[OF Some True] reorder_tx_projects n)
    qed
  qed
  then show "map projectId (tasks (snd (reorderTasksInLane env input db))) = map projectId (tasks db)"
    and "projects (snd (reorderTasksInLane env input db)) = projects db" by simp_all
qed

lemma deleteTask_projects:
  "set (map projectId (tasks (snd (deleteTask env tid db)))) \<subseteq> set (map projectId (tasks db))"
  "projects (snd (deleteTask env tid db)) = projects db"
proof -
  show "set (map projectId (tasks (snd (deleteTask env tid db)))) \<subseteq> set (map projectId (tasks db))"
  proof (cases "find (\<lambda>t. task_id t = tid) (tasks db)")
    case None
    then show ?thesis by (simp add: deleteTask_def)
  next
    case (Some task)
    have "map projectId (tasks (snd (deleteTask env tid db)))
            = map projectId (filter (\<lambda>t. task_id t \<noteq> tid) (tasks db))"
      using Some by (simp add: deleteTask_def Let_def forEach_set_order_projectIds)
    then show ?thesis by auto
  qed
  show "projects (snd (deleteTask env tid db)) = projects db"
    by (simp add: deleteTask_def Let_def forEach_set_order_rest split: option.splits)
qed

lemma refs_ok_append:
  assumes "refs_ok db" and "tasks db' = tasks db @ [n]" and "projectExists db' (projectId n)"
    and "\<And>p. projectExists db p \<Longrightarrow> projectExists db' p"
  shows "refs_ok db'"
  using assms by (auto simp: refs_ok_def)

lemma refs_ok_same_tasks:
  assumes "refs_ok db" and "tasks db' = tasks db"
    and "\<And>p. projectExists db p \<Longrightarrow> projectExists db' p"
  shows "refs_ok db'"
  using assms by (auto simp: refs_ok_def)

lemma createTask_refs:
  assumes "refs_ok db"
  shows "refs_ok (snd (createTask env input db))"
proof (cases rule: createTask_cases[of env input db])
  case (unreadable db')
  then show ?thesis using assms by (simp add: refs_ok_same_tasks[of db db'])
next
  case (collision db')
  then show ?thesis using assms by (simp add: refs_ok_same_tasks[of db db'])
next
  case (created item db')
  then show ?thesis using assms by (simp add: refs_ok_append[of db db' item])
qed

lemma spawn_next_refs:
  assumes "refs_ok db"
  shows "refs_ok (snd (spawn_next env item db))"
proof -
  obtain r db' where sp: "spawn_next env item db = (r, db')" by (cases "spawn_next env item db")
  note st = spawn_next_store[OF sp]
  show ?thesis
  proof (cases r)
    case (Inl e)
    then show ?thesis using st assms sp by (simp add: refs_ok_same_tasks[of db db'])
  next
    case (Inr n)
    then show ?thesis using st assms sp by (simp add: refs_ok_append[of db db' n])
  qed
qed

lemma updateTask_refs:
  assumes ok: "refs_ok db"
  shows "refs_ok (snd (updateTask env tid patch db))"
proof (cases "find (\<lambda>t. task_id t = tid) (tasks db)")
  case None
  then show ?thesis using ok by (simp add: updateTask_not_found)
next
  case (Some cur)
  have cur: "cur \<in> set (tasks db)" using find_SomeD[OF Some] by simp
  show ?thesis
  proof (cases "tp_projectId patch = Null")
    case True
    then show ?thesis using ok by (simp add: updateTask_null_project)
  next
    case False
    show ?thesis
    proof (cases "next_order_read patch cur db")
    case (Inl e)
    show ?thesis using ok by (simp add: updateTask_order_error[OF Some False Inl])
    next
    case (Inr ord)
    obtain item db5 where
      pj: "projectId item =
       (case tp_projectId patch of
          Value p \<Rightarrow> if projectExists db p then p else INBOX_PROJECT_ID
        | _ \<Rightarrow> projectId cur)"
      and row: "\<And>t. t \<in> set (tasks db5) \<Longrightarrow> task_id t = tid \<Longrightarrow>
         completedAt t = completedAt item \<and> status t = status item \<and> projectId t = projectId item"
      and other: "\<And>t. t \<in> set (tasks db5) \<Longrightarrow> task_id t \<noteq> tid \<Longrightarrow>
         \<exists>t0 \<in> set (tasks db). forget_order t = forget_order t0"
      and mono: "\<And>p. projectExists db p \<Longrightarrow> projectExists db5 p"
      and pex: "tp_projectId patch \<noteq> Omitted \<Longrightarrow> projectExists db5 (projectId item)"
      and res: "updateTask env tid patch db =
       (if status cur \<noteq> Done \<and> status item = Done \<and> recurrence item \<noteq> Rec_none then
          (case spawn_next env item db5 of
             (Inl e, db6) \<Rightarrow> (Inl e, db6)
           | (Inr spawned, db6) \<Rightarrow> (Inr (Some item), insertActivity env Act_task tid ''updated'' db6))
        else (Inr (Some item), insertActivity env Act_task tid ''updated'' db5))"
      by (rule updateTask_found[OF Some False Inr, where env = env]) blast
    have item_ok: "projectExists db5 (projectId item)"
    proof (cases "tp_projectId patch = Omitted")
      case True
      then have "projectId item = projectId cur" using pj by simp
      moreover have "projectExists db (projectId cur)" using ok cur by (simp add: refs_ok_def)
      ultimately show ?thesis using mono by simp
    next
      case False
      then show ?thesis by (rule pex)
    qed
    have ok5: "refs_ok db5"
      unfolding refs_ok_def
    proof
      fix t assume t: "t \<in> set (tasks db5)"
      show "projectExists db5 (projectId t)"
      proof (cases "task_id t = tid")
        case True
        then show ?thesis using row[OF t] item_ok by simp
      next
        case False
        then obtain t0 where t0: "t0 \<in> set (tasks db)" "forget_order t = forget_order t0"
          using other[OF t] by blast
        have "projectId t = projectId t0"
          using arg_cong[OF t0(2), of projectId] by simp
        moreover have "projectExists db (projectId t0)" using ok t0(1) by (simp add: refs_ok_def)
        ultimately show ?thesis using mono by simp
      qed
    qed
    obtain r db6 where sp: "spawn_next env item db5 = (r, db6)" by (cases "spawn_next env item db5")
    have ok6: "refs_ok db6" using spawn_next_refs[OF ok5, of env item] sp by simp
    have "snd (updateTask env tid patch db) = db6 \<or>
          snd (updateTask env tid patch db) = insertActivity env Act_task tid ''updated'' db6 \<or>
          snd (updateTask env tid patch db) = insertActivity env Act_task tid ''updated'' db5"
      unfolding res sp by (cases r) simp_all
    then show ?thesis using ok5 ok6 by auto
    qed
  qed
qed

lemma apply_op_refs:
  assumes "refs_ok db"
  shows "refs_ok (apply_op env op db)"
proof (cases op)
  case (CreateProject input)
  then show ?thesis
    using assms createProject_store[where env = env and input = input and db = db]
    by (simp add: apply_op_def refs_ok_same_tasks[of db])
next
  case (UpdateProject pid patch)
  then show ?thesis
    using assms updateProject_store[where env = env and pid = pid and patch = patch and db = db]
    by (simp add: apply_op_def refs_ok_same_tasks[of db])
next
  case (DeleteProject pid)
  then show ?thesis using assms by (simp add: apply_op_def deleteProject_refs)
next
  case (CreateTask input)
  then show ?thesis using assms by (simp add: apply_op_def createTask_refs)
next
  case (UpdateTask tid patch)
  then show ?thesis using assms by (simp add: apply_op_def updateTask_refs)
next
  case (ReorderTasks input)
  have "refs_ok (snd (reorderTasksInLane env input db))"
  proof (rule refs_ok_step[OF assms])
    show "\<And>t'. t' \<in> set (tasks (snd (reorderTasksInLane env input db))) \<Longrightarrow>
            \<exists>t \<in> set (tasks db). projectId t' = projectId t"
      using same_projectIds[OF reorder_projects(1)] by blast
    show "\<And>p. projectExists db p \<Longrightarrow> projectExists (snd (reorderTasksInLane env input db)) p"
      by (simp add: projectExists_def reorder_projects(2))
  qed
  then show ?thesis using ReorderTasks by (simp add: apply_op_def)
next
  case (DeleteTask tid)
  have "refs_ok (snd (deleteTask env tid db))"
  proof (rule refs_ok_step[OF assms])
    fix t' assume "t' \<in> set (tasks (snd (deleteTask env tid db)))"
    then have "projectId t' \<in> set (map projectId (tasks (snd (deleteTask env tid db))))" by simp
    then have "projectId t' \<in> set (map projectId (tasks db))"
      using deleteTask_projects(1)[where env = env and tid = tid and db = db] by blast
    then show "\<exists>t \<in> set (tasks db). projectId t' = projectId t" by auto
  next
    show "\<And>p. projectExists db p \<Longrightarrow> projectExists (snd (deleteTask env tid db)) p"
      by (simp add: projectExists_def deleteTask_projects(2))
  qed
  then show ?thesis using DeleteTask by (simp add: apply_op_def)
qed

lemma updateTask_inbox_fallback:
  assumes "tp_projectId patch = Value p" and "\<not> projectExists db p"
    and "updateTask env tid patch db = (Inr (Some item), db')"
  shows "projectId item = INBOX_PROJECT_ID \<and> projectExists db' INBOX_PROJECT_ID \<and>
         (\<forall>t \<in> set (tasks db'). task_id t = tid \<longrightarrow> projectId t = INBOX_PROJECT_ID)"
proof -
  obtain cur ord where Some: "find (\<lambda>t. task_id t = tid) (tasks db) = Some cur"
    and ord: "next_order_read patch cur db = Inr ord"
    using assms(3) by (rule updateTask_returned)
  have nn: "tp_projectId patch \<noteq> Null" "tp_projectId patch \<noteq> Omitted" using assms(1) by simp_all
  have cur: "cur \<in> set (tasks db)" "task_id cur = tid" using find_SomeD[OF Some] by auto
  obtain item0 db5 where
    pj: "projectId item0 =
       (case tp_projectId patch of
          Value p \<Rightarrow> if projectExists db p then p else INBOX_PROJECT_ID
        | _ \<Rightarrow> projectId cur)"
    and ids: "map task_id (tasks db5) = map task_id (tasks db)"
    and row: "\<And>t. t \<in> set (tasks db5) \<Longrightarrow> task_id t = tid \<Longrightarrow>
         completedAt t = completedAt item0 \<and> status t = status item0 \<and> projectId t = projectId item0"
    and pex: "tp_projectId patch \<noteq> Omitted \<Longrightarrow> projectExists db5 (projectId item0)"
    and res: "updateTask env tid patch db =
       (if status cur \<noteq> Done \<and> status item0 = Done \<and> recurrence item0 \<noteq> Rec_none then
          (case spawn_next env item0 db5 of
             (Inl e, db6) \<Rightarrow> (Inl e, db6)
           | (Inr spawned, db6) \<Rightarrow> (Inr (Some item0), insertActivity env Act_task tid ''updated'' db6))
        else (Inr (Some item0), insertActivity env Act_task tid ''updated'' db5))"
    by (rule updateTask_found[OF Some nn(1) ord, where env = env]) blast
  have p0: "projectId item0 = INBOX_PROJECT_ID" using pj assms(1,2) by simp
  have ex5: "projectExists db5 INBOX_PROJECT_ID" using pex[OF nn(2)] p0 by simp
  have tid_in: "tid \<in> task_id ` set (tasks db5)"
  proof -
    have "tid \<in> set (map task_id (tasks db))" using cur by force
    then show ?thesis by (simp only: ids[symmetric]) simp
  qed
  obtain r db6 where sp: "spawn_next env item0 db5 = (r, db6)" by (cases "spawn_next env item0 db5")
  note st = spawn_next_store[OF sp]
  consider (plain) "item = item0" "db' = insertActivity env Act_task tid ''updated'' db5"
    | (spawned) n where "item = item0" "db' = insertActivity env Act_task tid ''updated'' db6"
        "r = Inr n"
    using assms(3) unfolding res sp by (auto split: if_splits sum.splits)
  then show ?thesis
  proof cases
    case plain
    then show ?thesis using p0 ex5 row by simp
  next
    case (spawned n)
    have t6: "tasks db6 = tasks db5 @ [n]" and fresh: "task_id n \<notin> task_id ` set (tasks db5)"
      and m6: "\<forall>p. projectExists db5 p \<longrightarrow> projectExists db6 p"
      using st spawned(3) by auto
    have "task_id n \<noteq> tid" using fresh tid_in by auto
    then have "\<forall>t \<in> set (tasks db'). task_id t = tid \<longrightarrow> projectId t = INBOX_PROJECT_ID"
      using row spawned(1,2) t6 p0 by auto
    then show ?thesis using p0 ex5 m6 spawned(1,2) by simp
  qed
qed

lemma createTask_inbox_fallback:
  assumes "ct_projectId input = Some p" and "\<not> projectExists db p"
    and "createTask env input db = (Inr item, db')"
  shows "projectId item = INBOX_PROJECT_ID \<and> projectExists db' INBOX_PROJECT_ID \<and>
         tasks db' = tasks db @ [item]"
proof (cases rule: createTask_cases[of env input db])
  case (unreadable d)
  then show ?thesis using assms(3) by simp
next
  case (collision d)
  then show ?thesis using assms(3) by simp
next
  case (created n d)
  then have "n = item" "d = db'" using assms(3) by simp_all
  then show ?thesis using created(2,4,16) assms(1,2) by (simp add: Let_def)
qed

lemma createTask_projects_mono:
  "projectExists db p \<Longrightarrow> projectExists (snd (createTask env input db)) p"
  by (cases rule: createTask_cases[of env input db]) simp_all

lemma updateTask_projects_mono:
  assumes "projectExists db p"
  shows "projectExists (snd (updateTask env tid patch db)) p"
proof (cases "find (\<lambda>t. task_id t = tid) (tasks db)")
  case None
  then show ?thesis using assms by (simp add: updateTask_not_found)
next
  case (Some cur)
  show ?thesis
  proof (cases "tp_projectId patch = Null")
    case True
    then show ?thesis using assms by (simp add: updateTask_null_project)
  next
    case False
    show ?thesis
    proof (cases "next_order_read patch cur db")
    case (Inl e)
    show ?thesis using assms by (simp add: updateTask_order_error[OF Some False Inl])
    next
    case (Inr ord)
    obtain item db5 where
      mono: "\<And>p. projectExists db p \<Longrightarrow> projectExists db5 p"
      and res: "updateTask env tid patch db =
       (if status cur \<noteq> Done \<and> status item = Done \<and> recurrence item \<noteq> Rec_none then
          (case spawn_next env item db5 of
             (Inl e, db6) \<Rightarrow> (Inl e, db6)
           | (Inr spawned, db6) \<Rightarrow> (Inr (Some item), insertActivity env Act_task tid ''updated'' db6))
        else (Inr (Some item), insertActivity env Act_task tid ''updated'' db5))"
      by (rule updateTask_found[OF Some False Inr, where env = env]) blast
    obtain r db6 where sp: "spawn_next env item db5 = (r, db6)" by (cases "spawn_next env item db5")
    have p5: "projectExists db5 p" using mono assms by simp
    have p6: "projectExists db6 p" using spawn_next_store[OF sp] p5 by simp
    have "snd (updateTask env tid patch db) = db6 \<or>
          snd (updateTask env tid patch db) = insertActivity env Act_task tid ''updated'' db6 \<or>
          snd (updateTask env tid patch db) = insertActivity env Act_task tid ''updated'' db5"
      unfolding res sp by (cases r) simp_all
    then show ?thesis using p5 p6 by auto
    qed
  qed
qed

lemma apply_op_keeps_inbox:
  assumes "projectExists db INBOX_PROJECT_ID"
  shows "projectExists (apply_op env op db) INBOX_PROJECT_ID"
proof (cases op)
  case (CreateProject input)
  then show ?thesis using assms by (simp add: apply_op_def createProject_store)
next
  case (UpdateProject pid patch)
  then show ?thesis using assms by (simp add: apply_op_def updateProject_store)
next
  case (DeleteProject pid)
  show ?thesis
  proof (cases "pid \<noteq> INBOX_PROJECT_ID \<and> projectExists db pid")
    case True
    then show ?thesis using DeleteProject deleteProject_existing(3)[of pid db env]
      by (simp add: apply_op_def)
  next
    case False
    then have "deleteProject env pid db = (False, db)"
      using deleteProject_inbox deleteProject_missing by metis
    then show ?thesis using DeleteProject assms by (simp add: apply_op_def)
  qed
next
  case (CreateTask input)
  then show ?thesis using assms by (simp add: apply_op_def createTask_projects_mono)
next
  case (UpdateTask tid patch)
  then show ?thesis using assms by (simp add: apply_op_def updateTask_projects_mono)
next
  case (ReorderTasks input)
  then show ?thesis using assms by (simp add: apply_op_def projectExists_def reorder_projects(2))
next
  case (DeleteTask tid)
  then show ?thesis using assms by (simp add: apply_op_def projectExists_def deleteTask_projects(2))
qed

section \<open>The similarity score and the search for a duplicate\<close>

subsection \<open>Rounding to binary64\<close>

text \<open>
  A positive number below one is scaled by at least \<open>2^53\<close> before it is rounded, so the
  quotient of two natural numbers rounds to one only when it is one.
\<close>

lemma scale52_lower:
  assumes "\<And>i. i < j \<Longrightarrow> x * 2 ^ i < 2 ^ 52" and "j \<le> n"
  shows "j \<le> scale52 n x"
  using assms
proof (induction n arbitrary: x j)
  case 0
  then show ?case by simp
next
  case (Suc n)
  show ?case
  proof (cases j)
    case 0
    then show ?thesis by simp
  next
    case (Suc j')
    have "x * 2 ^ 0 < 2 ^ 52" using Suc.prems(1)[of 0] Suc by simp
    then have nx: "\<not> 2 ^ 52 \<le> x" by simp
    have "j' \<le> scale52 n (2 * x)"
    proof (rule Suc.IH)
      fix i assume "i < j'"
      then have "x * 2 ^ Suc i < 2 ^ 52" using Suc.prems(1)[of "Suc i"] Suc by simp
      then show "2 * x * 2 ^ i < 2 ^ 52" by (simp add: mult.assoc mult.left_commute)
    next
      show "j' \<le> n" using Suc.prems(2) Suc by simp
    qed
    then show ?thesis using nx Suc by simp
  qed
qed

lemma scale52_below_one:
  assumes "x < 1"
  shows "53 \<le> scale52 1074 x"
proof (rule scale52_lower)
  fix i :: nat assume "i < 53"
  then have b: "(2::rat) ^ i \<le> 2 ^ 52" by (intro power_increasing) simp_all
  have "x * 2 ^ i < 1 * 2 ^ i" using assms by (intro mult_strict_right_mono) simp_all
  then have a: "x * 2 ^ i < 2 ^ i" by (simp only: mult_1)
  show "x * 2 ^ i < 2 ^ 52" using a b by (rule less_le_trans)
qed simp

lemma round_half_even_le: "of_int (round_half_even x) \<le> x + 1 / 2"
proof -
  have f: "of_int \<lfloor>x\<rfloor> \<le> x" by simp
  show ?thesis
    unfolding round_half_even_def Let_def
    by (auto simp: not_less) (use f in linarith)+
qed

lemma to_double_one: "to_double 1 = 1"
  by code_simp

lemma to_double_below_one:
  assumes "0 < x" and "x \<le> 1 - 1 / 2 ^ 53"
  shows "to_double x < 1"
proof -
  let ?k = "scale52 1074 x"
  have x1: "x < 1"
  proof -
    have "(0::rat) < 1 / 2 ^ 53" by simp
    then show ?thesis using assms(2) by linarith
  qed
  have k: "53 \<le> ?k" using x1 by (rule scale52_below_one)
  have p: "(2::rat) ^ 53 \<le> 2 ^ ?k" using k by (intro power_increasing) simp_all
  have "x * 2 ^ ?k \<le> (1 - 1 / 2 ^ 53) * 2 ^ ?k"
    using assms(2) by (intro mult_right_mono) simp_all
  also have "\<dots> = 2 ^ ?k - 2 ^ ?k / 2 ^ 53" by (simp add: algebra_simps)
  also have "\<dots> \<le> 2 ^ ?k - 1"
  proof -
    have "(1::rat) \<le> 2 ^ ?k / 2 ^ 53" using p by (simp add: le_divide_eq)
    then show ?thesis by linarith
  qed
  finally have "x * 2 ^ ?k \<le> 2 ^ ?k - 1" .
  then have "of_int (round_half_even (x * 2 ^ ?k)) < (2::rat) ^ ?k"
    using round_half_even_le[of "x * 2 ^ ?k"] by linarith
  then have "of_int (round_half_even (x * 2 ^ ?k)) / 2 ^ ?k < (1::rat)"
    by (simp add: divide_less_eq)
  then show ?thesis using assms(1) by (simp add: to_double_def Let_def)
qed

lemma to_double_quotient_one:
  fixes p q :: nat
  assumes "p \<le> q" and "0 < q" and "q < 2 ^ 53"
  shows "to_double (of_nat p / of_nat q) = 1 \<longleftrightarrow> p = q"
proof
  assume "p = q"
  then show "to_double (of_nat p / of_nat q) = 1" using assms(2) by (simp add: to_double_one)
next
  assume one: "to_double (of_nat p / of_nat q) = 1"
  show "p = q"
  proof (rule ccontr)
    assume "p \<noteq> q"
    then have lt: "p < q" using assms(1) by simp
    have qpos: "(0::rat) < of_nat q" using assms(2) by simp
    show False
    proof (cases "p = 0")
      case True
      then show False using one by (simp add: to_double_def)
    next
      case False
      then have pos: "(0::rat) < of_nat p / of_nat q" using qpos by simp
      have "Suc p \<le> q" using lt by simp
      then have "(of_nat p :: rat) + 1 \<le> of_nat q"
        by (metis of_nat_Suc of_nat_le_iff add.commute)
      then have "(of_nat p :: rat) / of_nat q \<le> (of_nat q - 1) / of_nat q"
        using qpos by (intro divide_right_mono) simp_all
      also have "\<dots> = 1 - 1 / of_nat q" using qpos by (simp add: diff_divide_distrib)
      also have "\<dots> \<le> 1 - 1 / 2 ^ 53"
      proof -
        have "(of_nat q :: rat) \<le> 2 ^ 53"
          using assms(3) by (metis less_imp_le of_nat_le_iff of_nat_numeral of_nat_power)
        then have "(1::rat) / 2 ^ 53 \<le> 1 / of_nat q"
          using qpos by (intro divide_left_mono) simp_all
        then show ?thesis by linarith
      qed
      finally have "to_double (of_nat p / of_nat q) < 1"
        using pos by (intro to_double_below_one)
      then show False using one by simp
    qed
  qed
qed

text \<open>
  Below one the rounded number is within \<open>2^-54\<close> of the exact one. A quotient with a
  denominator of at most \<open>2^17\<close> that is not 18/25 is further than that from 18/25, so the
  comparison with the rounded literal 0.72 is the comparison of the exact numbers.
\<close>

lemma round_half_even_ge: "x - 1 / 2 \<le> of_int (round_half_even x)"
proof -
  have f: "x < of_int \<lfloor>x\<rfloor> + 1" by linarith
  show ?thesis
    unfolding round_half_even_def Let_def
    by (auto simp: not_less) (use f in linarith)+
qed

lemma to_double_error:
  assumes "0 < x" and "x < 1"
  shows "to_double x \<le> x + 1 / 2 ^ 54" and "x - 1 / 2 ^ 54 \<le> to_double x"
proof -
  let ?k = "scale52 1074 x"
  let ?R = "of_int (round_half_even (x * 2 ^ ?k)) :: rat"
  have k: "53 \<le> ?k" using assms(2) by (rule scale52_below_one)
  have p: "(2::rat) ^ 53 \<le> 2 ^ ?k" using k by (intro power_increasing) simp_all
  have pos: "(0::rat) < 2 ^ ?k" by simp
  have td: "to_double x = ?R / 2 ^ ?k" using assms(1) by (simp add: to_double_def Let_def)
  have e: "(1::rat) / 2 / 2 ^ ?k \<le> 1 / 2 ^ 54"
  proof -
    have "(1::rat) / 2 ^ ?k \<le> 1 / 2 ^ 53" using p by (intro divide_left_mono) simp_all
    then show ?thesis by simp
  qed
  have "?R \<le> x * 2 ^ ?k + 1 / 2" by (rule round_half_even_le)
  then have "?R / 2 ^ ?k \<le> (x * 2 ^ ?k + 1 / 2) / 2 ^ ?k"
    using pos by (intro divide_right_mono) simp_all
  also have "\<dots> = x + 1 / 2 / 2 ^ ?k" by (simp add: add_divide_distrib)
  finally show "to_double x \<le> x + 1 / 2 ^ 54" using e unfolding td by linarith
  have "x * 2 ^ ?k - 1 / 2 \<le> ?R" by (rule round_half_even_ge)
  then have "(x * 2 ^ ?k - 1 / 2) / 2 ^ ?k \<le> ?R / 2 ^ ?k"
    using pos by (intro divide_right_mono) simp_all
  moreover have "(x * 2 ^ ?k - 1 / 2) / 2 ^ ?k = x - 1 / 2 / 2 ^ ?k" by (simp add: diff_divide_distrib)
  ultimately show "x - 1 / 2 ^ 54 \<le> to_double x" using e unfolding td by linarith
qed

text \<open>The literal 0.72 and the quotient 18/25 are the same number.\<close>

lemma threshold_bounds:
  "72 / 100 - 1 / 2 ^ 54 \<le> to_double (72 / 100)" "to_double (72 / 100) \<le> 72 / 100 + 1 / 2 ^ 54"
  using to_double_error[of "72 / 100"] by simp_all


subsection \<open>Bigram sets\<close>

text \<open>
  The padded text has at least two characters, so the set of bigrams is never empty; its
  members are two characters long, so the set is small.
\<close>

lemma slices2_shape: "s \<in> set (slices2 cs) \<Longrightarrow> \<exists>x y. s = [x, y]"
  by (induction cs rule: slices2.induct) auto

lemma finite_bigrams [simp]: "finite (bigrams v)"
  by (simp add: bigrams_def)

lemma bigrams_nonempty: "bigrams v \<noteq> {}"
proof -
  obtain c cs where "normalize v @ '' '' = c # cs" by (cases "normalize v @ '' ''") auto
  then have "'' '' @ normalize v @ '' '' = CHR '' '' # c # cs" by simp
  then show ?thesis by (simp add: bigrams_def)
qed

lemma card_bigrams_pos: "0 < card (bigrams v)"
  using bigrams_nonempty[of v] by (simp add: card_gt_0_iff)

lemma card_bigrams_le: "card (bigrams v) \<le> 65536"
proof -
  have "bigrams v \<subseteq> range (\<lambda>(x :: char, y :: char). [x, y])"
    unfolding bigrams_def using slices2_shape by fastforce
  then have "card (bigrams v) \<le> card (range (\<lambda>(x :: char, y :: char). [x, y]))"
    by (intro card_mono) simp_all
  also have "\<dots> \<le> card (UNIV :: (char \<times> char) set)"
    by (rule card_image_le) simp
  also have "\<dots> = 65536"
    by (simp add: card_UNIV_char flip: UNIV_Times_UNIV)
  finally show ?thesis .
qed

lemma diceSimilarity_quotient:
  "diceSimilarity a b =
     to_double (of_nat (2 * card (bigrams a \<inter> bigrams b)) / of_nat (card (bigrams a) + card (bigrams b)))"
  using bigrams_nonempty[of a] bigrams_nonempty[of b] by (simp add: diceSimilarity_def Let_def)

lemma diceSimilarity_one_iff: "diceSimilarity a b = 1 \<longleftrightarrow> bigrams a = bigrams b"
proof -
  let ?A = "bigrams a" and ?B = "bigrams b"
  let ?c = "card (?A \<inter> ?B)"
  have cA: "?c \<le> card ?A" by (intro card_mono) simp_all
  have cB: "?c \<le> card ?B" by (intro card_mono) simp_all
  have le: "2 * ?c \<le> card ?A + card ?B" using cA cB by simp
  have pos: "0 < card ?A + card ?B" using card_bigrams_pos[of a] by simp
  have small: "card ?A + card ?B < 2 ^ 53"
  proof -
    have "card ?A + card ?B \<le> 131072" using card_bigrams_le[of a] card_bigrams_le[of b] by simp
    also have "(131072::nat) < 2 ^ 53" by simp
    finally show ?thesis .
  qed
  have "diceSimilarity a b = 1 \<longleftrightarrow> 2 * ?c = card ?A + card ?B"
    unfolding diceSimilarity_quotient by (rule to_double_quotient_one[OF le pos small])
  also have "\<dots> \<longleftrightarrow> ?c = card ?A \<and> ?c = card ?B" using cA cB by auto
  also have "\<dots> \<longleftrightarrow> ?A \<inter> ?B = ?A \<and> ?A \<inter> ?B = ?B"
  proof -
    have "?c = card ?A \<longleftrightarrow> ?A \<inter> ?B = ?A"
      using card_subset_eq[of ?A "?A \<inter> ?B"] by auto
    moreover have "?c = card ?B \<longleftrightarrow> ?A \<inter> ?B = ?B"
      using card_subset_eq[of ?B "?A \<inter> ?B"] by auto
    ultimately show ?thesis by simp
  qed
  also have "\<dots> \<longleftrightarrow> ?A = ?B" by blast
  finally show ?thesis .
qed


lemma toFixed2_threshold: "toFixed2 (to_double (72 / 100)) = to_double (72 / 100)"
proof -
  have "\<lfloor>to_double (72 / 100) * 100 + 1 / 2\<rfloor> = 72"
    using threshold_bounds by (intro floor_unique) simp_all
  then show ?thesis by (simp add: toFixed2_def)
qed

lemma diceSimilarity_dice_exact: "diceSimilarity a b = to_double (dice_exact a b)"
  unfolding dice_exact_def by (rule diceSimilarity_quotient)


subsection \<open>The best candidate\<close>





subsection \<open>The scoped pool\<close>


lemma set_candidates_project:
  "set (candidates db src Entity_project) =
     set (map (\<lambda>p. (project_id p, project_title p)) (filter (\<lambda>p. project_source p = src) (projects db)))"
  by (simp add: candidates_def listProjects_def set_order_by)

section \<open>The long list of the example\<close>





section \<open>Rejected reorders\<close>



section \<open>Dense lanes\<close>

text \<open>
  C1. Start from a store whose task ids are distinct (\<open>id\<close> is the primary key of the table)
  and in which the order values of every status lane are \<open>0, ..., n - 1\<close>. After any
  sequence of \<open>reorderTasksInLane\<close> and \<open>deleteTask\<close> calls, accepted or rejected, the order
  values of every lane \<open>st\<close> are exactly the set \<open>{0, ..., n - 1}\<close> for the size \<open>n\<close> of the
  lane, and no two tasks of the lane share a value.
\<close>

theorem lanes_stay_dense:
  assumes "distinct (map task_id (tasks db))" and "all_lanes_dense db"
  shows "order_index ` set (lane st (tasks (run_lane_ops env ops db)))
           = {0 ..< int (length (lane st (tasks (run_lane_ops env ops db))))}
         \<and> distinct (map order_index (lane st (tasks (run_lane_ops env ops db))))"
proof -
  have "\<forall>st. lane_dense st (tasks db)"
    using assms(2) TASK_STATUSES_all by (auto simp: all_lanes_dense_def)
  then have "lane_dense st (tasks (run_lane_ops env ops db))"
    using run_lane_ops_invariant[OF assms(1)] by blast
  then show ?thesis using lane_denseD by blast
qed

theorem lanes_stay_dense_witness:
  "distinct (map task_id (tasks ex_store)) \<and> all_lanes_dense ex_store \<and>
   order_index ` set (lane Done (tasks (run_lane_ops ex_env ex_ops ex_store)))
      = {0 ..< int (length (lane Done (tasks (run_lane_ops ex_env ex_ops ex_store))))} \<and>
   distinct (map order_index (lane Done (tasks (run_lane_ops ex_env ex_ops ex_store))))"
proof -
  have h1: "distinct (map task_id (tasks ex_store))" by code_simp
  have h2: "all_lanes_dense ex_store" by code_simp
  show ?thesis using h1 h2 lanes_stay_dense[OF h1 h2, of Done ex_env ex_ops] by blast
qed

section \<open>The completion timestamp\<close>

text \<open>
  C10. Every updateTask that returns a task has set its \<open>completedAt\<close> from the resulting
  status alone: a clock reading taken during this call when the resulting status is done, null
  otherwise. Nothing of the previous value enters, and the stored row of the task carries the
  same status and the same \<open>completedAt\<close> as the returned task.
\<close>

theorem completedAt_follows_status:
  assumes "updateTask env tid patch db = (Inr (Some item), db')"
  shows "(\<exists>k. clock_reads db \<le> k \<and> k < clock_reads db' \<and>
             completedAt item = (if status item = Done then Some (clock env k) else None)) \<and>
         (\<forall>t \<in> set (tasks db'). task_id t = tid \<longrightarrow>
             status t = status item \<and> completedAt t = completedAt item)"
proof -
  obtain cur ord where Some: "find (\<lambda>t. task_id t = tid) (tasks db) = Some cur"
    and nn: "tp_projectId patch \<noteq> Null"
    and ord: "next_order_read patch cur db = Inr ord"
    using assms by (rule updateTask_returned)
  have cur: "cur \<in> set (tasks db)" "task_id cur = tid"
    using find_SomeD[OF Some] by auto
  obtain item0 db5 where
    k: "\<exists>k. clock_reads db \<le> k \<and> k < clock_reads db5 \<and>
         completedAt item0 = (if status item0 = Done then Some (clock env k) else None)"
    and ids: "map task_id (tasks db5) = map task_id (tasks db)"
    and row: "\<And>t. t \<in> set (tasks db5) \<Longrightarrow> task_id t = tid \<Longrightarrow>
         completedAt t = completedAt item0 \<and> status t = status item0 \<and> projectId t = projectId item0"
    and res: "updateTask env tid patch db =
       (if status cur \<noteq> Done \<and> status item0 = Done \<and> recurrence item0 \<noteq> Rec_none then
          (case spawn_next env item0 db5 of
             (Inl e, db6) \<Rightarrow> (Inl e, db6)
           | (Inr spawned, db6) \<Rightarrow> (Inr (Some item0), insertActivity env Act_task tid ''updated'' db6))
        else (Inr (Some item0), insertActivity env Act_task tid ''updated'' db5))"
    by (rule updateTask_found[OF Some nn ord, where env = env]) blast
  have tid_in: "tid \<in> task_id ` set (tasks db5)"
  proof -
    have "tid \<in> set (map task_id (tasks db))" using cur by force
    then show ?thesis by (simp only: ids[symmetric]) simp
  qed
  obtain r db6 where sp: "spawn_next env item0 db5 = (r, db6)" by (cases "spawn_next env item0 db5")
  note st = spawn_next_store[OF sp]
  consider (plain) "item = item0" "db' = insertActivity env Act_task tid ''updated'' db5"
    | (spawned) n where "item = item0" "db' = insertActivity env Act_task tid ''updated'' db6"
        "r = Inr n"
    using assms unfolding res sp by (auto split: if_splits sum.splits)
  then show ?thesis
  proof cases
    case plain
    have "\<forall>t \<in> set (tasks db'). task_id t = tid \<longrightarrow>
             status t = status item \<and> completedAt t = completedAt item"
      using row plain by simp
    moreover have "\<exists>k. clock_reads db \<le> k \<and> k < clock_reads db' \<and>
             completedAt item = (if status item = Done then Some (clock env k) else None)"
      using k plain by (auto intro: less_SucI)
    ultimately show ?thesis by blast
  next
    case (spawned n)
    have t6: "tasks db6 = tasks db5 @ [n]" and fresh: "task_id n \<notin> task_id ` set (tasks db5)"
      and c6: "clock_reads db5 \<le> clock_reads db6"
      using st spawned(3) by auto
    have "task_id n \<noteq> tid" using fresh tid_in by auto
    then have "\<forall>t \<in> set (tasks db'). task_id t = tid \<longrightarrow>
             status t = status item \<and> completedAt t = completedAt item"
      using row spawned(1,2) t6 by auto
    moreover have "\<exists>k. clock_reads db \<le> k \<and> k < clock_reads db' \<and>
             completedAt item = (if status item = Done then Some (clock env k) else None)"
    proof -
      obtain k where "clock_reads db \<le> k" "k < clock_reads db5"
        "completedAt item0 = (if status item0 = Done then Some (clock env k) else None)"
        using k by blast
      moreover have "clock_reads db5 < clock_reads db'" using c6 spawned(2) by simp
      ultimately show ?thesis using spawned(1) by (intro exI[of _ k]) auto
    qed
    ultimately show ?thesis by blast
  qed
qed

theorem completedAt_follows_status_witness:
  "\<exists>item db'.
     updateTask ex_env ''task-e'' ex_rename ex_store = (Inr (Some item), db') \<and>
     title item = ''Water the plants'' \<and>
     status item = Done \<and>
     (\<exists>k. clock_reads ex_store \<le> k \<and> k < clock_reads db' \<and>
          completedAt item = (if status item = Done then Some (clock ex_env k) else None)) \<and>
     (\<forall>t \<in> set (tasks db'). task_id t = ''task-e'' \<longrightarrow>
          status t = status item \<and> completedAt t = completedAt item)"
proof -
  let ?cur = "ex_task ''task-e'' Done 0 Rec_none"
  have h1: "find (\<lambda>t. task_id t = ''task-e'') (tasks ex_store) = Some ?cur"
    by (simp add: ex_store_def ex_task_def)
  have h2: "tp_projectId ex_rename \<noteq> Null"
    by (simp add: ex_rename_def ex_complete_def)
  have h3: "next_order_read ex_rename ?cur ex_store = Inr 0"
    by (simp add: next_order_read_def ex_rename_def ex_complete_def ex_task_def)
  obtain item db5 where
    st: "status item = (case tp_status ex_rename of Some s \<Rightarrow> s | None \<Rightarrow> status ?cur)"
    and ti: "title item = (case tp_title ex_rename of Some t \<Rightarrow> trim t | None \<Rightarrow> title ?cur)"
    and res: "updateTask ex_env ''task-e'' ex_rename ex_store =
       (if status ?cur \<noteq> Done \<and> status item = Done \<and> recurrence item \<noteq> Rec_none then
          (case spawn_next ex_env item db5 of
             (Inl e, db6) \<Rightarrow> (Inl e, db6)
           | (Inr spawned, db6) \<Rightarrow>
               (Inr (Some item), insertActivity ex_env Act_task ''task-e'' ''updated'' db6))
        else (Inr (Some item), insertActivity ex_env Act_task ''task-e'' ''updated'' db5))"
    by (rule updateTask_found[OF h1 h2 h3, where env = ex_env]) blast
  have st': "status item = Done"
    using st by (simp add: ex_rename_def ex_complete_def ex_task_def)
  have ti': "title item = ''Water the plants''"
    using ti by (simp add: ex_rename_def ex_complete_def trim_def is_space_def)
  have ret: "updateTask ex_env ''task-e'' ex_rename ex_store =
               (Inr (Some item), insertActivity ex_env Act_task ''task-e'' ''updated'' db5)"
    using res by (simp add: ex_task_def)
  show ?thesis
    using completedAt_follows_status[OF ret] ret st' ti'
    by (intro exI[of _ item] exI[of _ "insertActivity ex_env Act_task ''task-e'' ''updated'' db5"] conjI)
      simp_all
qed

section \<open>The recurrence spawner\<close>




section \<open>Reordering into the done lane\<close>

text \<open>
  C2 at a concrete store. The request drags the daily task \<open>task-a\<close> from todo to the head of
  the done lane. The reorder is accepted and the task is done afterwards, still daily, but the
  table holds the same five tasks as before: no successor is created, where the same transition
  through updateTask creates one.
\<close>

theorem reorder_into_done_spawns_nothing:
  "fst (reorderTasksInLane ex_env ex_drag_to_done ex_store) =
     Inr (Some (listTasks (snd (reorderTasksInLane ex_env ex_drag_to_done ex_store)))) \<and>
   map (\<lambda>t. (task_id t, status t, order_index t, recurrence t))
     (tasks (snd (reorderTasksInLane ex_env ex_drag_to_done ex_store)))
   = [(''task-a'', Done, 0, Daily), (''task-b'', Todo, 0, Rec_none), (''task-c'', Todo, 1, Rec_none),
      (''task-d'', In_progress, 0, Rec_none), (''task-e'', Done, 1, Rec_none)]"
proof -
  have found: "find (\<lambda>t. task_id t = movedTaskId ex_drag_to_done) (tasks ex_store)
                 = Some (ex_task ''task-a'' Todo 0 Daily)"
    by (simp add: ex_drag_to_done_def ex_store_def ex_task_def)
  have acc: "reorder_accepts ex_env ex_drag_to_done ex_store"
    unfolding reorder_accepts_def reorder_rejected_or_accepted[OF found]
    by (simp add: ex_drag_to_done_def ex_store_def ex_task_def array_from_set_def Let_def
          SQLITE_MAX_VARIABLE_NUMBER_def)
  have "fst (reorderTasksInLane ex_env ex_drag_to_done ex_store) =
     Inr (Some (listTasks (snd (reorderTasksInLane ex_env ex_drag_to_done ex_store))))"
    by (rule reorder_accepted(6)[OF found acc])
  moreover have "map (\<lambda>t. (task_id t, status t, order_index t, recurrence t))
     (tasks (snd (reorderTasksInLane ex_env ex_drag_to_done ex_store)))
   = [(''task-a'', Done, 0, Daily), (''task-b'', Todo, 0, Rec_none), (''task-c'', Todo, 1, Rec_none),
      (''task-d'', In_progress, 0, Rec_none), (''task-e'', Done, 1, Rec_none)]"
    unfolding reorder_accepted(1)[OF found acc]
    by (simp add: reorder_tx_writes_def ex_drag_to_done_def ex_defs
         array_from_set_def now_def insertActivity_def createId_def update_where_def order_by_def
         lane_le_def set_order_index_def Let_def)
  ultimately show ?thesis by (rule conjI)
qed

text \<open>
  The statement read at the store of the example: the request is accepted, the ids of the table
  are the five ids the table held before the call, and the moved task is the only task whose
  status differs.
\<close>

theorem reorder_into_done_spawns_nothing_witness:
  "fst (reorderTasksInLane ex_env ex_drag_to_done ex_store) =
     Inr (Some (listTasks (snd (reorderTasksInLane ex_env ex_drag_to_done ex_store)))) \<and>
   map task_id (tasks (snd (reorderTasksInLane ex_env ex_drag_to_done ex_store)))
     = map task_id (tasks ex_store) \<and>
   map status (tasks (snd (reorderTasksInLane ex_env ex_drag_to_done ex_store)))
     = (map status (tasks ex_store))[0 := Done] \<and>
   map recurrence (tasks (snd (reorderTasksInLane ex_env ex_drag_to_done ex_store)))
     = map recurrence (tasks ex_store)"
proof -
  let ?ts = "tasks (snd (reorderTasksInLane ex_env ex_drag_to_done ex_store))"
  let ?row = "\<lambda>t. (task_id t, status t, order_index t, recurrence t)"
  note r = reorder_into_done_spawns_nothing
  have ids: "map task_id ?ts = map fst (map ?row ?ts)"
    by (simp add: comp_def)
  have sts: "map status ?ts = map (\<lambda>p. fst (snd p)) (map ?row ?ts)"
    by (simp add: comp_def)
  have recs: "map recurrence ?ts = map (\<lambda>p. snd (snd (snd p))) (map ?row ?ts)"
    by (simp add: comp_def)
  have "map task_id ?ts = map task_id (tasks ex_store)"
    unfolding ids conjunct2[OF r] by (simp add: ex_defs)
  moreover have "map status ?ts = (map status (tasks ex_store))[0 := Done]"
    unfolding sts conjunct2[OF r] by (simp add: ex_defs)
  moreover have "map recurrence ?ts = map recurrence (tasks ex_store)"
    unfolding recs conjunct2[OF r] by (simp add: ex_defs)
  ultimately show ?thesis using conjunct1[OF r] by simp
qed

section \<open>Every task keeps an existing project\<close>

text \<open>
  C9. Whatever operation of the store runs (create, update or delete a project; create, update,
  reorder or delete a task), and whatever it returns, a store in which every task points to an
  existing project stays such a store, and an existing Inbox project stays. Deleting the Inbox
  is refused and writes nothing. Deleting another existing project succeeds, deletes no task
  and moves exactly the tasks of that project to the Inbox, which exists afterwards. A
  createTask or an updateTask that is given the id of a project that does not exist stores the
  Inbox id instead.
\<close>

theorem project_references_kept:
  "(refs_ok db \<longrightarrow> refs_ok (apply_op env op db)) \<and>
   (projectExists db INBOX_PROJECT_ID \<longrightarrow> projectExists (apply_op env op db) INBOX_PROJECT_ID) \<and>
   deleteProject env INBOX_PROJECT_ID db = (False, db) \<and>
   (pid \<noteq> INBOX_PROJECT_ID \<and> projectExists db pid \<longrightarrow>
      fst (deleteProject env pid db) \<and>
      \<not> projectExists (snd (deleteProject env pid db)) pid \<and>
      projectExists (snd (deleteProject env pid db)) INBOX_PROJECT_ID \<and>
      map task_id (tasks (snd (deleteProject env pid db))) = map task_id (tasks db) \<and>
      map projectId (tasks (snd (deleteProject env pid db))) =
        map (\<lambda>t. if projectId t = pid then INBOX_PROJECT_ID else projectId t) (tasks db)) \<and>
   (ct_projectId input = Some p \<and> \<not> projectExists db p \<and>
    createTask env input db = (Inr created, db1) \<longrightarrow>
      projectId created = INBOX_PROJECT_ID \<and> projectExists db1 INBOX_PROJECT_ID \<and>
      tasks db1 = tasks db @ [created]) \<and>
   (tp_projectId patch = Value p \<and> \<not> projectExists db p \<and>
    updateTask env tid patch db = (Inr (Some item), db2) \<longrightarrow>
      projectId item = INBOX_PROJECT_ID \<and> projectExists db2 INBOX_PROJECT_ID \<and>
      (\<forall>t \<in> set (tasks db2). task_id t = tid \<longrightarrow> projectId t = INBOX_PROJECT_ID))"
proof (intro conjI impI)
  show "refs_ok db \<Longrightarrow> refs_ok (apply_op env op db)" by (rule apply_op_refs)
  show "projectExists db INBOX_PROJECT_ID \<Longrightarrow> projectExists (apply_op env op db) INBOX_PROJECT_ID"
    by (rule apply_op_keeps_inbox)
  show "deleteProject env INBOX_PROJECT_ID db = (False, db)" by (rule deleteProject_inbox)
next
  assume a: "pid \<noteq> INBOX_PROJECT_ID \<and> projectExists db pid"
  note d = deleteProject_existing[OF conjunct1[OF a] conjunct2[OF a], where env = env]
  show "fst (deleteProject env pid db)" by (rule d(1))
  show "\<not> projectExists (snd (deleteProject env pid db)) pid" by (rule d(2))
  show "projectExists (snd (deleteProject env pid db)) INBOX_PROJECT_ID" by (rule d(3))
  show "map task_id (tasks (snd (deleteProject env pid db))) = map task_id (tasks db)" by (rule d(4))
  show "map projectId (tasks (snd (deleteProject env pid db))) =
        map (\<lambda>t. if projectId t = pid then INBOX_PROJECT_ID else projectId t) (tasks db)"
    by (rule d(5))
next
  assume a: "ct_projectId input = Some p \<and> \<not> projectExists db p \<and>
    createTask env input db = (Inr created, db1)"
  then have c: "projectId created = INBOX_PROJECT_ID \<and> projectExists db1 INBOX_PROJECT_ID \<and>
         tasks db1 = tasks db @ [created]"
    using createTask_inbox_fallback[of input p db env created db1] by blast
  show "projectId created = INBOX_PROJECT_ID" using c by blast
  show "projectExists db1 INBOX_PROJECT_ID" using c by blast
  show "tasks db1 = tasks db @ [created]" using c by blast
next
  assume a: "tp_projectId patch = Value p \<and> \<not> projectExists db p \<and>
    updateTask env tid patch db = (Inr (Some item), db2)"
  then have c: "projectId item = INBOX_PROJECT_ID \<and> projectExists db2 INBOX_PROJECT_ID \<and>
         (\<forall>t \<in> set (tasks db2). task_id t = tid \<longrightarrow> projectId t = INBOX_PROJECT_ID)"
    using updateTask_inbox_fallback[of patch p db env tid item db2] by blast
  show "projectId item = INBOX_PROJECT_ID" using c by blast
  show "projectExists db2 INBOX_PROJECT_ID" using c by blast
  show "\<forall>t \<in> set (tasks db2). task_id t = tid \<longrightarrow> projectId t = INBOX_PROJECT_ID" using c by blast
qed

theorem project_references_kept_witness:
  "refs_ok ex_store \<and>
   refs_ok (apply_op ex_env (DeleteProject ''proj-orion'') ex_store) \<and>
   projectExists ex_store INBOX_PROJECT_ID \<and>
   projectExists (apply_op ex_env (DeleteProject ''proj-orion'') ex_store) INBOX_PROJECT_ID \<and>
   ''proj-orion'' \<noteq> INBOX_PROJECT_ID \<and>
   projectExists ex_store ''proj-orion'' \<and>
   \<not> projectExists (snd (deleteProject ex_env ''proj-orion'' ex_store)) ''proj-orion'' \<and>
   map projectId (tasks (snd (deleteProject ex_env ''proj-orion'' ex_store)))
     = [''proj-inbox'', ''proj-inbox'', ''proj-inbox'', ''proj-inbox'', ''proj-inbox''] \<and>
   \<not> projectExists ex_store ''proj-gone'' \<and>
   (\<exists>created db1. createTask ex_env ex_new_task ex_store = (Inr created, db1) \<and>
        projectId created = INBOX_PROJECT_ID \<and> tasks db1 = tasks ex_store @ [created]) \<and>
   (\<exists>item db2. updateTask ex_env ''task-b'' ex_move_project ex_store = (Inr (Some item), db2) \<and>
        projectId item = INBOX_PROJECT_ID \<and>
        (\<forall>t \<in> set (tasks db2). task_id t = ''task-b'' \<longrightarrow> projectId t = INBOX_PROJECT_ID))"
proof -
  have h_refs: "refs_ok ex_store"
    by (simp add: refs_ok_def projectExists_def ex_store_def ex_task_def ex_inbox_def ex_orion_def)
  have h_inbox: "projectExists ex_store INBOX_PROJECT_ID"
    by (simp add: projectExists_def ex_store_def ex_inbox_def ex_orion_def INBOX_PROJECT_ID_def)
  have h_ne: "''proj-orion'' \<noteq> INBOX_PROJECT_ID" by (simp add: INBOX_PROJECT_ID_def)
  have h_orion: "projectExists ex_store ''proj-orion''"
    by (simp add: projectExists_def ex_store_def ex_inbox_def ex_orion_def)
  have h_gone: "\<not> projectExists ex_store ''proj-gone''"
    by (simp add: projectExists_def ex_store_def ex_inbox_def ex_orion_def)
  have h_ct: "ct_projectId ex_new_task = Some ''proj-gone''" by (simp add: ex_new_task_def)
  have h_tp: "tp_projectId ex_move_project = Value ''proj-gone''"
    by (simp add: ex_move_project_def ex_complete_def)
  obtain created db1 where c: "createTask ex_env ex_new_task ex_store = (Inr created, db1)"
  proof (cases rule: createTask_cases[of ex_env ex_new_task ex_store])
    case (unreadable d)
    then show ?thesis
      by (simp add: getNextTaskOrder_def ex_new_task_def ex_store_def ex_task_def
            stored_as_integer_def MAX_SAFE_INTEGER_def Let_def)
  next
    case (collision d)
    then show ?thesis by (simp add: ex_store_def ex_task_def ex_env_def)
  next
    case (created n d)
    then show ?thesis using that by blast
  qed
  have h_find: "find (\<lambda>t. task_id t = ''task-b'') (tasks ex_store) = Some (ex_task ''task-b'' Todo 1 Rec_none)"
    by (simp add: ex_store_def ex_task_def)
  have h_nn: "tp_projectId ex_move_project \<noteq> Null" using h_tp by simp
  have h_ord: "next_order_read ex_move_project (ex_task ''task-b'' Todo 1 Rec_none) ex_store = Inr 1"
    by (simp add: next_order_read_def ex_move_project_def ex_complete_def ex_task_def)
  obtain item db5 where
    st: "status item = (case tp_status ex_move_project of Some s \<Rightarrow> s
                         | None \<Rightarrow> status (ex_task ''task-b'' Todo 1 Rec_none))"
    and res: "updateTask ex_env ''task-b'' ex_move_project ex_store =
       (if status (ex_task ''task-b'' Todo 1 Rec_none) \<noteq> Done \<and> status item = Done \<and>
           recurrence item \<noteq> Rec_none then
          (case spawn_next ex_env item db5 of
             (Inl e, db6) \<Rightarrow> (Inl e, db6)
           | (Inr spawned, db6) \<Rightarrow>
               (Inr (Some item), insertActivity ex_env Act_task ''task-b'' ''updated'' db6))
        else (Inr (Some item), insertActivity ex_env Act_task ''task-b'' ''updated'' db5))"
    by (rule updateTask_found[OF h_find h_nn h_ord, where env = ex_env]) blast
  have "status item = Todo"
    using st by (simp add: ex_move_project_def ex_complete_def ex_task_def)
  then have u: "updateTask ex_env ''task-b'' ex_move_project ex_store =
                  (Inr (Some item), insertActivity ex_env Act_task ''task-b'' ''updated'' db5)"
    using res by simp
  note inst = project_references_kept[where db = ex_store and env = ex_env
      and op = "DeleteProject ''proj-orion''" and pid = "''proj-orion''"
      and input = ex_new_task and p = "''proj-gone''" and created = created and ?db1.0 = db1
      and patch = ex_move_project and tid = "''task-b''" and item = item
      and ?db2.0 = "insertActivity ex_env Act_task ''task-b'' ''updated'' db5"]
  have del: "map projectId (tasks (snd (deleteProject ex_env ''proj-orion'' ex_store)))
     = [''proj-inbox'', ''proj-inbox'', ''proj-inbox'', ''proj-inbox'', ''proj-inbox'']"
    using inst h_ne h_orion
    by (simp add: ex_store_def ex_task_def INBOX_PROJECT_ID_def)
  show ?thesis
    using inst h_refs h_inbox h_ne h_orion h_gone h_ct h_tp c u del
    by (intro conjI exI[of _ created] exI[of _ db1] exI[of _ item]
          exI[of _ "insertActivity ex_env Act_task ''task-b'' ''updated'' db5"]) simp_all
qed

section \<open>The similarity score\<close>

text \<open>
  C5, as the code has it. The bigram set of a string is never empty, because the normalized
  form is padded with a space on either side before it is cut, so diceSimilarity never takes its
  zero branch and is the Dice quotient of the two sets, rounded to binary64. It is one exactly
  when the two bigram sets are equal. Equal normalized forms have equal bigram sets, so they score one, also
  when both forms are empty; the converse fails, since a longer form can have the bigrams of a
  shorter one.
\<close>

theorem similarity_one_iff_same_bigrams:
  "bigrams a \<noteq> {} \<and>
   diceSimilarity a b = to_double (dice_exact a b) \<and>
   (diceSimilarity a b = 1 \<longleftrightarrow> bigrams a = bigrams b) \<and>
   (normalize a = normalize b \<longrightarrow> diceSimilarity a b = 1)"
proof (intro conjI impI)
  show "bigrams a \<noteq> {}" by (rule bigrams_nonempty)
  show "diceSimilarity a b = to_double (dice_exact a b)" by (rule diceSimilarity_dice_exact)
  show "diceSimilarity a b = 1 \<longleftrightarrow> bigrams a = bigrams b" by (rule diceSimilarity_one_iff)
  assume "normalize a = normalize b"
  then have "bigrams a = bigrams b" by (simp add: bigrams_def)
  then show "diceSimilarity a b = 1" by (simp add: diceSimilarity_one_iff)
qed

text \<open>Two titles that differ in case and punctuation only have the same normalized form.\<close>

theorem similarity_one_iff_same_bigrams_witness:
  "normalize ''Pay Rent!'' = ''pay rent'' \<and> normalize ''pay  rent'' = ''pay rent'' \<and>
   bigrams ''Pay Rent!'' \<noteq> {} \<and> diceSimilarity ''Pay Rent!'' ''pay  rent'' = 1"
proof -
  have n1: "normalize ''Pay Rent!'' = ''pay rent''" by code_simp
  have n2: "normalize ''pay  rent'' = ''pay rent''" by code_simp
  note s = similarity_one_iff_same_bigrams[of "''Pay Rent!''" "''pay  rent''"]
  have "bigrams ''Pay Rent!'' \<noteq> {}" using s by (rule conjunct1)
  moreover have "diceSimilarity ''Pay Rent!'' ''pay  rent'' = 1"
    using s n1 n2 by simp
  ultimately show ?thesis using n1 n2 by simp
qed

text \<open>
  Against C5 as it is written: two titles with different, non-empty normalized forms score
  one, and so do two empty strings, whose normalized forms are empty.
\<close>

theorem similarity_one_for_different_forms:
  "normalize ''Pay rent rent'' = ''pay rent rent'' \<and> normalize ''Pay rent'' = ''pay rent'' \<and>
   diceSimilarity ''Pay rent rent'' ''Pay rent'' = 1 \<and>
   normalize [] = [] \<and> diceSimilarity [] [] = 1"
proof -
  have n1: "normalize ''Pay rent rent'' = ''pay rent rent''" by code_simp
  have n2: "normalize ''Pay rent'' = ''pay rent''" by code_simp
  have b: "bigrams ''Pay rent rent'' = bigrams ''Pay rent''" by code_simp
  have n3: "normalize [] = []" by code_simp
  have "diceSimilarity ''Pay rent rent'' ''Pay rent'' = 1"
    using b by (simp only: diceSimilarity_one_iff)
  moreover have "diceSimilarity [] [] = 1" by (simp only: diceSimilarity_one_iff)
  ultimately show ?thesis using n1 n2 n3 by simp
qed

section \<open>The fuzzy threshold\<close>



section \<open>An exact match comes first\<close>



section \<open>A sheet without the title header\<close>

text \<open>
  C8. Every import type requires the header \<open>title\<close>. When the first line of the text does not
  name it, previewImport returns one row, with line 1 and the error that names the missing
  header, and counts no valid row and one invalid row; the data lines are not looked at.
\<close>

theorem preview_without_title_header:
  assumes "''title'' \<notin> set (csv_headers (parseCsv (import_text payload)))"
  shows "resp_rows (previewImport db payload) =
           [\<lparr>row_line = 1, row_values = Map.empty, row_error = Some ''Missing headers: title'',
             duplicateMatch = None, suggestedAction = Skip\<rparr>] \<and>
         resp_headers (previewImport db payload) = csv_headers (parseCsv (import_text payload)) \<and>
         validRows (previewImport db payload) = 0 \<and>
         invalidRows (previewImport db payload) = 1"
proof -
  have req: "requiredHeadersByType (import_type payload) = [''title'']"
    by (cases "import_type payload") (simp_all add: requiredHeadersByType_def)
  show ?thesis using assms by (simp add: previewImport_def Let_def req)
qed

text \<open>A sheet with the headers name and notes and two data lines.\<close>

theorem preview_without_title_header_witness:
  "csv_headers (parseCsv (import_text ex_sheet)) = [''name'', ''notes''] \<and>
   csv_rows (parseCsv (import_text ex_sheet)) = [[''Buy milk'', ''two litres''], [''Pay rent'', []]] \<and>
   resp_rows (previewImport ex_import_store ex_sheet) =
     [\<lparr>row_line = 1, row_values = Map.empty, row_error = Some ''Missing headers: title'',
       duplicateMatch = None, suggestedAction = Skip\<rparr>] \<and>
   validRows (previewImport ex_import_store ex_sheet) = 0 \<and>
   invalidRows (previewImport ex_import_store ex_sheet) = 1"
proof -
  have h: "csv_headers (parseCsv (import_text ex_sheet)) = [''name'', ''notes'']" by code_simp
  have r: "csv_rows (parseCsv (import_text ex_sheet)) = [[''Buy milk'', ''two litres''], [''Pay rent'', []]]"
    by code_simp
  have "''title'' \<notin> set (csv_headers (parseCsv (import_text ex_sheet)))" unfolding h by simp
  from preview_without_title_header[OF this, of ex_import_store] show ?thesis using h r by simp
qed


end
